theory Spec2Isabelle
  imports Complex_Main "HOL-Library.Monad_Syntax"
begin

section \<open>Freehand-stroke shape classifier (utils/geometry)\<close>

text \<open>
  The development embeds the stroke classifier \<^verbatim>\<open>analyzeShape\<close> and its helpers
  \<^verbatim>\<open>getDistance\<close>, \<^verbatim>\<open>getPathLength\<close>, \<^verbatim>\<open>perpendicularDistance\<close> and
  \<^verbatim>\<open>ramerDouglasPeucker\<close>.

  Numbers. A JavaScript number is an IEEE-754 double. Finite doubles are idealised as
  reals: rounding, overflow and the sign of zero are not modelled. The samples of a stroke
  are finite pointer coordinates, so a point carries two reals. With finite samples the
  only non-finite values the source can produce are the results of its three unguarded
  divisions (\<^verbatim>\<open>linearity\<close>, \<^verbatim>\<open>fillRatio\<close>, \<^verbatim>\<open>normalizedVariance\<close>); they have the
  type \<open>jsnum\<close>, which adds \<^verbatim>\<open>Infinity\<close>, \<^verbatim>\<open>-Infinity\<close> and \<^verbatim>\<open>NaN\<close> to the reals.

  Rounding. The sums, products, quotients and square roots of the source are rounded to
  doubles and those of the reals are exact, so a number below can differ from the double
  that the source computes. The shoelace sum of a stroke on one vertical line is 0 here
  and can be a small non-zero double there, which makes the fill ratio of such a stroke
  \<^verbatim>\<open>Infinity\<close> instead of \<^verbatim>\<open>NaN\<close>; the displacement over the path length is at most 1
  here and can exceed 1 by a rounding error there. No theorem of a claim rests on such
  a fact. The theorems say which comparisons of the source decide the result and what the
  result then is; of a number they use its sign and the comparisons that the source makes
  with it, and a statement on a quotient holds for each value the quotient can have,
  the infinite ones included. The example strokes have small integer or half-integer
  coordinates, for which doubles give the same results: the square roots and products
  that reach a result are exact, and a quantity that is rounded is far from the
  threshold it is compared with.
\<close>

subsection \<open>Numbers\<close>

datatype jsnum = Fin real | PInf | NInf | NaN

text \<open>
  \<^verbatim>\<open>a / b\<close> on finite operands. Every divisor of the source is a sum of square roots, a
  product of two differences \<^verbatim>\<open>max - min\<close> or a square, so a zero divisor is \<^verbatim>\<open>+0\<close>:
  \<^verbatim>\<open>0 / 0\<close> is \<^verbatim>\<open>NaN\<close> and a non-zero number over zero is the infinity of its sign.
\<close>

definition jsdiv :: "real \<Rightarrow> real \<Rightarrow> jsnum" where
  "jsdiv a b =
     (if b \<noteq> 0 then Fin (a / b)
      else if a = 0 then NaN
      else if 0 < a then PInf
      else NInf)"

text \<open>\<^verbatim>\<open>v > c\<close> and \<^verbatim>\<open>v < c\<close> for a finite constant \<open>c\<close>: every comparison with \<^verbatim>\<open>NaN\<close> is false.\<close>

fun jsgt :: "jsnum \<Rightarrow> real \<Rightarrow> bool" where
  "jsgt (Fin a) c = (a > c)"
| "jsgt PInf c = True"
| "jsgt NInf c = False"
| "jsgt NaN c = False"

fun jslt :: "jsnum \<Rightarrow> real \<Rightarrow> bool" where
  "jslt (Fin a) c = (a < c)"
| "jslt PInf c = False"
| "jslt NInf c = True"
| "jslt NaN c = False"

text \<open>\<^verbatim>\<open>c - v\<close> for a finite \<open>c\<close> (the circle's score \<^verbatim>\<open>1 - normalizedVariance\<close>).\<close>

fun jsrsub :: "real \<Rightarrow> jsnum \<Rightarrow> jsnum" where
  "jsrsub c (Fin a) = Fin (c - a)"
| "jsrsub c PInf = NInf"
| "jsrsub c NInf = PInf"
| "jsrsub c NaN = NaN"

subsection \<open>Data model\<close>

text \<open>
  \<^verbatim>\<open>interface Point { x: number; y: number }\<close>. The fields are called \<open>px\<close> and \<open>py\<close>
  here, since a record field is a global constant and \<open>x\<close>, \<open>y\<close> are wanted as variables.
\<close>

record Point =
  px :: real
  py :: real

text \<open>The \<^verbatim>\<open>type\<close> field of \<^verbatim>\<open>ShapeAnalysis\<close>.\<close>

datatype ShapeKind = Circle | Rect | Triangle | Line | Unknown

text \<open>
  The \<^verbatim>\<open>data\<close> field (typed \<^verbatim>\<open>any\<close>): one constructor for each object literal that
  \<^verbatim>\<open>analyzeShape\<close> builds, with the literal's fields in their order, and \<open>NoData\<close> for
  \<^verbatim>\<open>null\<close>.
\<close>

datatype ShapeData =
    LineData Point Point            \<comment> \<open>\<^verbatim>\<open>{ start, end }\<close>\<close>
  | RectData real real real real    \<comment> \<open>\<^verbatim>\<open>{ left, top, width, height }\<close>\<close>
  | TriangleData real real real real  \<comment> \<open>\<^verbatim>\<open>{ centerX, centerY, width, height }\<close>\<close>
  | CircleData real real real       \<comment> \<open>\<^verbatim>\<open>{ centerX, centerY, radius }\<close>\<close>
  | NoData                          \<comment> \<open>\<^verbatim>\<open>null\<close>\<close>

record ShapeAnalysis =
  kind :: ShapeKind
  score :: jsnum
  data :: ShapeData

text \<open>
  What a call can end with instead of a value: \<open>RangeError\<close> is the engine's answer to a
  recursion that never returns (call stack exhausted), \<open>TypeError\<close> the one to reading a
  property of \<^verbatim>\<open>undefined\<close>, which is what an array read out of range yields.
\<close>

datatype err = RangeError | TypeError

subsection \<open>Helper functions\<close>

definition getDistance :: "Point \<Rightarrow> Point \<Rightarrow> real" where
  "getDistance p1 p2 = sqrt ((px p2 - px p1)\<^sup>2 + (py p2 - py p1)\<^sup>2)"

text \<open>The loop \<^verbatim>\<open>for (let i = 1; i < points.length; i++)\<close> with its accumulator \<^verbatim>\<open>len\<close>.\<close>

definition getPathLength :: "Point list \<Rightarrow> real" where
  "getPathLength points =
     fold (\<lambda>i len. len + getDistance (points ! (i - 1)) (points ! i)) [1..<length points] 0"

definition perpendicularDistance :: "Point \<Rightarrow> Point \<Rightarrow> Point \<Rightarrow> real" where
  "perpendicularDistance point lineStart lineEnd =
     (let dx0 = px lineEnd - px lineStart;
          dy0 = py lineEnd - py lineStart;
          mag = sqrt (dx0 * dx0 + dy0 * dy0);
          dx = (if mag > 0 then dx0 / mag else dx0);
          dy = (if mag > 0 then dy0 / mag else dy0);
          pvx = px point - px lineStart;
          pvy = py point - py lineStart;
          pvdot = dx * pvx + dy * pvy;
          dsx = pvx - pvdot * dx;
          dsy = pvy - pvdot * dy
      in sqrt (dsx * dsx + dsy * dsy))"

subsection \<open>Ramer-Douglas-Peucker\<close>

text \<open>
  The search loop of \<^verbatim>\<open>ramerDouglasPeucker\<close>, \<^verbatim>\<open>for (let i = 1; i < end; i++)\<close>, with its
  two variables \<^verbatim>\<open>dmax\<close> and \<^verbatim>\<open>index\<close>, both starting at 0. It runs only on lists of
  three or more points, where every index it reads is in range.
\<close>

definition farthest :: "Point list \<Rightarrow> real \<times> nat" where
  "farthest points =
     (let end = length points - 1
      in fold (\<lambda>i (dmax, index).
                 let d = perpendicularDistance (points ! i) (points ! 0) (points ! end)
                 in if d > dmax then (d, i) else (dmax, index))
           [1..<end] (0, 0))"

text \<open>
  \<^verbatim>\<open>xs.slice(a, b)\<close> for indices \<open>0 \<le> a\<close> and \<open>0 \<le> b\<close>. The source also calls
  \<^verbatim>\<open>r.slice(0, r.length - 1)\<close>, whose second index is \<open>-1\<close> on an empty \<open>r\<close>; a negative
  index counts from the end and is clamped at 0, so the slice is empty, as it is with the
  truncating subtraction of \<open>nat\<close>.
\<close>

definition slice :: "nat \<Rightarrow> nat \<Rightarrow> 'a list \<Rightarrow> 'a list" where
  "slice a b xs = drop a (take b xs)"

text \<open>
  The recursion does not return on every input: when \<^verbatim>\<open>dmax > epsilon\<close> holds with
  \<^verbatim>\<open>index\<close> still 0, which a negative \<^verbatim>\<open>epsilon\<close> allows, the second call is on the whole
  list again. The result is an option, and \<open>None\<close> is a call that never returns.
\<close>

partial_function (option) ramerDouglasPeucker :: "Point list \<Rightarrow> real \<Rightarrow> Point list option" where
  "ramerDouglasPeucker points epsilon =
     (if length points < 3 then Some points
      else
        let (dmax, index) = farthest points;
            end = length points - 1
        in if dmax > epsilon then
             do {
               recResults1 \<leftarrow> ramerDouglasPeucker (slice 0 (index + 1) points) epsilon;
               recResults2 \<leftarrow> ramerDouglasPeucker (slice index (end + 1) points) epsilon;
               Some (slice 0 (length recResults1 - 1) recResults1 @ recResults2)
             }
           else Some [points ! 0, points ! end])"

subsection \<open>The local constants of analyzeShape\<close>

text \<open>
  Each definition below is one local constant of \<^verbatim>\<open>analyzeShape\<close>, as a function of
  the stroke \<^verbatim>\<open>originalPoints\<close>; \<open>analyzeShape\<close> binds them in the order of the source.
\<close>

text \<open>
  \<^verbatim>\<open>linearity = displacement / totalLength\<close>. The quotient is the exact one; the source
  rounds the path length, a sum of rounded square roots, and the quotient.
\<close>

definition linearity :: "Point list \<Rightarrow> jsnum" where
  "linearity originalPoints =
     (let start = originalPoints ! 0;
          end = originalPoints ! (length originalPoints - 1);
          totalLength = getPathLength originalPoints;
          displacement = getDistance start end
      in jsdiv displacement totalLength)"

text \<open>
  The bounding-box loop, \<^verbatim>\<open>originalPoints.forEach\<close> over
  \<open>(minX, maxX, minY, maxY)\<close>. The source starts the four variables at \<^verbatim>\<open>Infinity\<close>,
  \<^verbatim>\<open>-Infinity\<close>, \<^verbatim>\<open>Infinity\<close>, \<^verbatim>\<open>-Infinity\<close>: \<open>bboxLoop\<close> is that loop, on \<open>jsnum\<close>, with
  the comparisons \<^verbatim>\<open>p.x < minX\<close>, \<^verbatim>\<open>p.x > maxX\<close>, \<^verbatim>\<open>p.y < minY\<close>, \<^verbatim>\<open>p.y > maxY\<close>.
\<close>

definition bboxLoopStep :: "Point \<Rightarrow> jsnum \<times> jsnum \<times> jsnum \<times> jsnum \<Rightarrow> jsnum \<times> jsnum \<times> jsnum \<times> jsnum" where
  "bboxLoopStep p = (\<lambda>(minX, maxX, minY, maxY).
     (if jsgt minX (px p) then Fin (px p) else minX,
      if jslt maxX (px p) then Fin (px p) else maxX,
      if jsgt minY (py p) then Fin (py p) else minY,
      if jslt maxY (py p) then Fin (py p) else maxY))"

definition bboxLoop :: "Point list \<Rightarrow> jsnum \<times> jsnum \<times> jsnum \<times> jsnum" where
  "bboxLoop originalPoints = fold bboxLoopStep originalPoints (PInf, NInf, PInf, NInf)"

text \<open>
  Every finite coordinate is below \<^verbatim>\<open>Infinity\<close> and above \<^verbatim>\<open>-Infinity\<close>, so the first
  sample replaces all four variables, and from then on they are finite. The loop runs
  after the guard on the length, on ten samples or more. \<open>boundingBox\<close> is the loop on
  reals, started from the coordinates of the first sample; on a non-empty stroke
  \<open>bboxLoop\<close> ends at the same four numbers (lemma \<open>bboxLoop_boundingBox\<close> below), and
  \<open>analyzeShape\<close> goes on with them.
\<close>

definition bboxStep :: "Point \<Rightarrow> real \<times> real \<times> real \<times> real \<Rightarrow> real \<times> real \<times> real \<times> real" where
  "bboxStep p = (\<lambda>(minX, maxX, minY, maxY).
     (if px p < minX then px p else minX,
      if px p > maxX then px p else maxX,
      if py p < minY then py p else minY,
      if py p > maxY then py p else maxY))"

definition boundingBox :: "Point list \<Rightarrow> real \<times> real \<times> real \<times> real" where
  "boundingBox originalPoints =
     (let p0 = originalPoints ! 0
      in fold bboxStep originalPoints (px p0, px p0, py p0, py p0))"

definition width :: "Point list \<Rightarrow> real" where
  "width originalPoints = (case boundingBox originalPoints of (minX, maxX, minY, maxY) \<Rightarrow> maxX - minX)"

definition height :: "Point list \<Rightarrow> real" where
  "height originalPoints = (case boundingBox originalPoints of (minX, maxX, minY, maxY) \<Rightarrow> maxY - minY)"

definition diag :: "Point list \<Rightarrow> real" where
  "diag originalPoints =
     sqrt (width originalPoints * width originalPoints + height originalPoints * height originalPoints)"

definition centerX :: "Point list \<Rightarrow> real" where
  "centerX originalPoints =
     (case boundingBox originalPoints of (minX, maxX, minY, maxY) \<Rightarrow> minX + width originalPoints / 2)"

definition centerY :: "Point list \<Rightarrow> real" where
  "centerY originalPoints =
     (case boundingBox originalPoints of (minX, maxX, minY, maxY) \<Rightarrow> minY + height originalPoints / 2)"

text \<open>
  The shoelace loop and \<^verbatim>\<open>area = Math.abs(area) / 2\<close>. The sum is the exact one; the
  source rounds each product and each partial sum, so where the exact terms cancel (a
  stroke on one vertical or horizontal line) the double can be a small non-zero number.
\<close>

definition shoelace :: "Point list \<Rightarrow> real" where
  "shoelace originalPoints =
     fold (\<lambda>i area.
             let j = (i + 1) mod length originalPoints
             in area + px (originalPoints ! i) * py (originalPoints ! j)
                     - px (originalPoints ! j) * py (originalPoints ! i))
       [0..<length originalPoints] 0"

definition area :: "Point list \<Rightarrow> real" where
  "area originalPoints = \<bar>shoelace originalPoints\<bar> / 2"

text \<open>
  \<^verbatim>\<open>fillRatio = area / (width * height)\<close>. Over a zero divisor it is \<^verbatim>\<open>NaN\<close> for a zero
  area and \<^verbatim>\<open>Infinity\<close> for any other.
\<close>

definition fillRatio :: "Point list \<Rightarrow> jsnum" where
  "fillRatio originalPoints =
     jsdiv (area originalPoints) (width originalPoints * height originalPoints)"

definition epsilon :: "Point list \<Rightarrow> real" where
  "epsilon originalPoints = max 5 (diag originalPoints * 0.04)"

text \<open>
  \<^verbatim>\<open>isClosed\<close> and \<^verbatim>\<open>vertices\<close>, from the simplified list. \<^verbatim>\<open>simplified[0]\<close> is read
  first (the left operand of \<^verbatim>\<open>||\<close>); \<open>analyzeShape\<close> below reaches these two only with a
  non-empty \<open>simplified\<close>. \<^verbatim>\<open>vertices\<close> is a copy of \<open>simplified\<close>, and \<^verbatim>\<open>pop\<close> drops
  its last element.
\<close>

definition isClosed :: "Point list \<Rightarrow> Point list \<Rightarrow> bool" where
  "isClosed originalPoints simplified =
     (let start = originalPoints ! 0;
          end = originalPoints ! (length originalPoints - 1)
      in getDistance (simplified ! 0) (simplified ! (length simplified - 1))
           < diag originalPoints * 0.15
         \<or> getDistance start end < diag originalPoints * 0.15)"

definition vertices :: "Point list \<Rightarrow> Point list \<Rightarrow> Point list" where
  "vertices originalPoints simplified =
     (let vs = simplified
      in if isClosed originalPoints simplified \<and> length vs > 3
         then (if getDistance (vs ! 0) (vs ! (length vs - 1)) < epsilon originalPoints * 2
               then butlast vs else vs)
         else vs)"

text \<open>The two \<^verbatim>\<open>forEach\<close> loops of the circle test, over \<^verbatim>\<open>totalRadius\<close> and \<^verbatim>\<open>radiusVariance\<close>.\<close>

definition center :: "Point list \<Rightarrow> Point" where
  "center originalPoints = \<lparr>px = centerX originalPoints, py = centerY originalPoints\<rparr>"

definition avgRadius :: "Point list \<Rightarrow> real" where
  "avgRadius originalPoints =
     (let totalRadius =
            fold (\<lambda>p totalRadius. totalRadius + getDistance p (center originalPoints))
              originalPoints 0
      in totalRadius / real (length originalPoints))"

definition radiusVariance :: "Point list \<Rightarrow> real" where
  "radiusVariance originalPoints =
     fold (\<lambda>p radiusVariance.
             let r = getDistance p (center originalPoints)
             in radiusVariance + (r - avgRadius originalPoints)\<^sup>2)
       originalPoints 0
     / real (length originalPoints)"

definition normalizedVariance :: "Point list \<Rightarrow> jsnum" where
  "normalizedVariance originalPoints =
     jsdiv (radiusVariance originalPoints)
       (avgRadius originalPoints * avgRadius originalPoints)"

subsection \<open>analyzeShape\<close>

definition analyzeShape :: "Point list \<Rightarrow> err + ShapeAnalysis" where
  "analyzeShape originalPoints =
     (if length originalPoints < 10
      then Inr \<lparr>kind = Unknown, score = Fin 0, data = NoData\<rparr>
      else
        let start = originalPoints ! 0;
            end = originalPoints ! (length originalPoints - 1)
        in
        if jsgt (linearity originalPoints) 0.94
        then Inr \<lparr>kind = Line, score = linearity originalPoints, data = LineData start end\<rparr>
        else
          case boundingBox originalPoints of (minX, maxX, minY, maxY) \<Rightarrow>
          let width = width originalPoints;
              height = height originalPoints;
              centerX = centerX originalPoints;
              centerY = centerY originalPoints;
              fillRatio = fillRatio originalPoints
          in
          if jsgt fillRatio 0.80
          then Inr \<lparr>kind = Rect, score = fillRatio, data = RectData minX minY width height\<rparr>
          else
            (case ramerDouglasPeucker originalPoints (epsilon originalPoints) of
              None \<Rightarrow> Inl RangeError
            | Some simplified \<Rightarrow>
                if simplified = [] then Inl TypeError
                else
                  let vCount = length (vertices originalPoints simplified)
                  in
                  if vCount = 3
                  then Inr \<lparr>kind = Triangle, score = Fin 0.9,
                            data = TriangleData centerX centerY width height\<rparr>
                  else if vCount \<ge> 4 \<and> vCount \<le> 6
                  then Inr \<lparr>kind = Rect, score = Fin 0.9,
                            data = RectData minX minY width height\<rparr>
                  else
                    let avgRadius = avgRadius originalPoints;
                        normalizedVariance = normalizedVariance originalPoints
                    in
                    if jslt normalizedVariance 0.05 \<and> jsgt fillRatio 0.6
                    then Inr \<lparr>kind = Circle, score = jsrsub 1 normalizedVariance,
                              data = CircleData centerX centerY avgRadius\<rparr>
                    else if jsgt fillRatio 0.35 \<and> jslt fillRatio 0.65
                    then Inr \<lparr>kind = Triangle, score = Fin 0.7,
                              data = TriangleData centerX centerY width height\<rparr>
                    else Inr \<lparr>kind = Unknown, score = Fin 0, data = NoData\<rparr>))"

section \<open>The classifier on a store of arrays\<close>

text \<open>
  The definitions above take a stroke as a value. In the source a stroke is a reference
  to an array, \<^verbatim>\<open>ramerDouglasPeucker\<close> returns its argument itself (the same array, not a
  copy) when it is shorter than 3, and \<^verbatim>\<open>analyzeShape\<close> removes the last element of an
  array in place with \<^verbatim>\<open>pop\<close>. This section repeats the two functions on an explicit store,
  to settle what a call does to the arrays that exist.

  The store is the list of the arrays allocated so far, and a reference is a position in
  it. The elements of an array are points as values: the source never assigns to a field
  of a point and never compares two points by identity.
\<close>

type_synonym ref = nat

type_synonym store = "Point list list"

text \<open>
  Every expression of the source that builds an array (\<^verbatim>\<open>slice\<close>, \<^verbatim>\<open>concat\<close>, an array
  literal, a spread) allocates a new one.
\<close>

definition newArray :: "Point list \<Rightarrow> store \<Rightarrow> ref \<times> store" where
  "newArray xs st = (length st, st @ [xs])"

text \<open>\<^verbatim>\<open>a.pop()\<close>: the only statement of the source that writes to an array.\<close>

definition pop :: "ref \<Rightarrow> store \<Rightarrow> store" where
  "pop a st = st[a := butlast (st ! a)]"

text \<open>The simplifier on the store; \<open>eps\<close> is its parameter \<^verbatim>\<open>epsilon\<close>.\<close>

partial_function (option) ramerDouglasPeucker_st :: "ref \<Rightarrow> real \<Rightarrow> store \<Rightarrow> (ref \<times> store) option" where
  "ramerDouglasPeucker_st points eps st =
     (if length (st ! points) < 3 then Some (points, st)
      else
        let (dmax, index) = farthest (st ! points);
            end = length (st ! points) - 1
        in if dmax > eps then
             do {
               let (left, st1) = newArray (slice 0 (index + 1) (st ! points)) st;
               (recResults1, st2) \<leftarrow> ramerDouglasPeucker_st left eps st1;
               let (right, st3) = newArray (slice index (end + 1) (st2 ! points)) st2;
               (recResults2, st4) \<leftarrow> ramerDouglasPeucker_st right eps st3;
               let (front, st5) =
                     newArray (slice 0 (length (st4 ! recResults1) - 1) (st4 ! recResults1)) st4;
               Some (newArray (st5 ! front @ st5 ! recResults2) st5)
             }
           else Some (newArray [st ! points ! 0, st ! points ! end] st))"

text \<open>
  \<^verbatim>\<open>analyzeShape\<close> on the store. The constants computed before the simplifier is called
  (\<^verbatim>\<open>start\<close>, \<^verbatim>\<open>end\<close>, \<^verbatim>\<open>linearity\<close>, the bounding box, \<^verbatim>\<open>fillRatio\<close>, \<^verbatim>\<open>epsilon\<close>) are read
  from the array as it is on entry. The two loops of the circle test run
  \<^verbatim>\<open>originalPoints.forEach\<close> after the \<^verbatim>\<open>pop\<close>, and read the array as it is then.
\<close>

definition analyzeShape_st :: "ref \<Rightarrow> store \<Rightarrow> (err + ShapeAnalysis) \<times> store" where
  "analyzeShape_st originalPoints st =
     (if length (st ! originalPoints) < 10
      then (Inr \<lparr>kind = Unknown, score = Fin 0, data = NoData\<rparr>, st)
      else
        let ps = st ! originalPoints;
            start = ps ! 0;
            end = ps ! (length ps - 1)
        in
        if jsgt (linearity ps) 0.94
        then (Inr \<lparr>kind = Line, score = linearity ps, data = LineData start end\<rparr>, st)
        else
          case boundingBox ps of (minX, maxX, minY, maxY) \<Rightarrow>
          let width = width ps;
              height = height ps;
              centerX = centerX ps;
              centerY = centerY ps;
              fillRatio = fillRatio ps
          in
          if jsgt fillRatio 0.80
          then (Inr \<lparr>kind = Rect, score = fillRatio, data = RectData minX minY width height\<rparr>, st)
          else
            (case ramerDouglasPeucker_st originalPoints (epsilon ps) st of
              None \<Rightarrow> (Inl RangeError, st)
            | Some (simplified, st1) \<Rightarrow>
                if st1 ! simplified = [] then (Inl TypeError, st1)
                else
                  let closed = isClosed ps (st1 ! simplified);
                      (vertices, st2) = newArray (st1 ! simplified) st1;
                      st3 = (if closed \<and> length (st2 ! vertices) > 3
                             then (if getDistance (st2 ! vertices ! 0)
                                        (st2 ! vertices ! (length (st2 ! vertices) - 1))
                                      < epsilon ps * 2
                                   then pop vertices st2 else st2)
                             else st2);
                      vCount = length (st3 ! vertices)
                  in
                  if vCount = 3
                  then (Inr \<lparr>kind = Triangle, score = Fin 0.9,
                             data = TriangleData centerX centerY width height\<rparr>, st3)
                  else if vCount \<ge> 4 \<and> vCount \<le> 6
                  then (Inr \<lparr>kind = Rect, score = Fin 0.9,
                             data = RectData minX minY width height\<rparr>, st3)
                  else
                    let now = st3 ! originalPoints;
                        c = \<lparr>px = centerX, py = centerY\<rparr>;
                        totalRadius = fold (\<lambda>p totalRadius. totalRadius + getDistance p c) now 0;
                        avgRadius = totalRadius / real (length now);
                        radiusVariance =
                          fold (\<lambda>p radiusVariance.
                                  let r = getDistance p c
                                  in radiusVariance + (r - avgRadius)\<^sup>2) now 0
                          / real (length now);
                        normalizedVariance = jsdiv radiusVariance (avgRadius * avgRadius)
                    in
                    if jslt normalizedVariance 0.05 \<and> jsgt fillRatio 0.6
                    then (Inr \<lparr>kind = Circle, score = jsrsub 1 normalizedVariance,
                               data = CircleData centerX centerY avgRadius\<rparr>, st3)
                    else if jsgt fillRatio 0.35 \<and> jslt fillRatio 0.65
                    then (Inr \<lparr>kind = Triangle, score = Fin 0.7,
                               data = TriangleData centerX centerY width height\<rparr>, st3)
                    else (Inr \<lparr>kind = Unknown, score = Fin 0, data = NoData\<rparr>, st3)))"

section \<open>Example strokes\<close>

text \<open>The strokes at which the theorems below are instantiated.\<close>

abbreviation pt :: "real \<Rightarrow> real \<Rightarrow> Point" where
  "pt a b \<equiv> \<lparr>px = a, py = b\<rparr>"

definition diagonalStroke :: "Point list" where
  "diagonalStroke =
     [pt 0 0, pt 3 4, pt 6 8, pt 9 12, pt 12 16, pt 15 20, pt 18 24, pt 21 28, pt 24 32, pt 27 36]"

definition rectangleStroke :: "Point list" where
  "rectangleStroke =
     [pt 0 0, pt 1 0, pt 2 0, pt 2 1, pt 2 2, pt 2 3, pt 1 3, pt 0 3, pt 0 2, pt 0 1]"

definition coincidentTriple :: "Point list" where
  "coincidentTriple = [pt 0 0, pt 0 0, pt 0 0]"

definition collinearTriple :: "Point list" where
  "collinearTriple = [pt 0 0, pt 1 0, pt 2 0]"

definition bentTriple :: "Point list" where
  "bentTriple = [pt 0 0, pt 5 7, pt 10 0]"

definition doubleSquareStroke :: "Point list" where
  "doubleSquareStroke =
     [pt 0 0, pt 10 0, pt 10 10, pt 0 10, pt 0 0, pt 10 0, pt 10 10, pt 0 10, pt 0 0, pt 10 0]"

definition coincidentStroke :: "Point list" where
  "coincidentStroke =
     [pt 4 4, pt 4 4, pt 4 4, pt 4 4, pt 4 4, pt 4 4, pt 4 4, pt 4 4, pt 4 4, pt 4 4]"




definition circleStroke :: "Point list" where
  "circleStroke =
     [pt (5/2) 0, pt 2 (3/2), pt (3/2) 2, pt 0 (5/2), pt (- 3/2) 2, pt (- 2) (3/2),
      pt (- 5/2) 0, pt (- 2) (- 3/2), pt (- 3/2) (- 2), pt 0 (- 5/2), pt (3/2) (- 2),
      pt 2 (- 3/2), pt (5/2) 0]"

definition rhombusStroke :: "Point list" where
  "rhombusStroke =
     [pt 0 0, pt 8 6, pt 20 15, pt 40 30, pt 60 15, pt 80 0, pt 60 (- 15), pt 40 (- 30),
      pt 20 (- 15), pt 0 0]"


section \<open>Properties\<close>

subsection \<open>Distances and path length\<close>

lemma getDistance_nonneg: "0 \<le> getDistance p q"
  by (simp add: getDistance_def)

lemma getDistance_self: "getDistance p p = 0"
  by (simp add: getDistance_def)

lemma fold_add_sum: "fold (\<lambda>i (acc::real). acc + f i) xs a = a + sum_list (map f xs)"
  by (induction xs arbitrary: a) auto

lemma getPathLength_sum:
  "getPathLength ps = (\<Sum>i\<leftarrow>[1..<length ps]. getDistance (ps ! (i - 1)) (ps ! i))"
  by (simp add: getPathLength_def fold_add_sum)

lemma getPathLength_Nil: "getPathLength [] = 0"
  by (simp add: getPathLength_def)

lemma getPathLength_single: "getPathLength [p] = 0"
  by (simp add: getPathLength_def)

lemma getPathLength_Cons2:
  "getPathLength (p # q # ps) = getDistance p q + getPathLength (q # ps)"
proof -
  let ?g = "\<lambda>zs i. getDistance (zs ! (i - 1)) (zs ! i)"
  have "[1..<length (p # q # ps)] = 1 # map Suc [1..<length (q # ps)]"
    by (simp add: upt_conv_Cons map_Suc_upt del: upt_Suc)
  then have "getPathLength (p # q # ps)
      = ?g (p # q # ps) 1 + sum_list (map (?g (p # q # ps)) (map Suc [1..<length (q # ps)]))"
    unfolding getPathLength_sum by (simp only: list.map sum_list.Cons)
  also have "map (?g (p # q # ps)) (map Suc [1..<length (q # ps)])
      = map (?g (q # ps)) [1..<length (q # ps)]"
    unfolding map_map by (rule map_cong) (auto simp: nth_Cons')
  finally show ?thesis
    by (simp add: getPathLength_sum)
qed

lemma getPathLength_nonneg: "0 \<le> getPathLength ps"
  unfolding getPathLength_sum by (rule sum_list_nonneg) (auto simp: getDistance_nonneg)

lemma perpendicularDistance_same:
  "perpendicularDistance p a a = getDistance a p"
  by (simp add: perpendicularDistance_def getDistance_def power2_eq_square Let_def)

subsection \<open>The guard on the stroke length\<close>

text \<open>
  Claim C7. A list of fewer than 10 points is classified \<^verbatim>\<open>unknown\<close> with score 0 and a
  \<^verbatim>\<open>null\<close> payload, whatever the points are.
\<close>

theorem analyzeShape_short:
  "length originalPoints < 10 \<Longrightarrow>
   analyzeShape originalPoints = Inr \<lparr>kind = Unknown, score = Fin 0, data = NoData\<rparr>"
  by (simp add: analyzeShape_def)

theorem analyzeShape_short_witness:
  "length [pt 0 0, pt 30 0, pt 0 40, pt 0 0] < 10
   \<and> analyzeShape [pt 0 0, pt 30 0, pt 0 40, pt 0 0]
       = Inr \<lparr>kind = Unknown, score = Fin 0, data = NoData\<rparr>"
  using analyzeShape_short [of "[pt 0 0, pt 30 0, pt 0 40, pt 0 0]"]
  by simp

subsection \<open>Bounding box\<close>

lemma fold_bboxStep:
  "fold bboxStep ps (a, b, c, d) =
     (fold min (map px ps) a, fold max (map px ps) b, fold min (map py ps) c, fold max (map py ps) d)"
proof (induction ps arbitrary: a b c d)
  case Nil
  show ?case by simp
next
  case (Cons p ps)
  have "bboxStep p (a, b, c, d) = (min (px p) a, max (px p) b, min (py p) c, max (py p) d)"
    by (auto simp: bboxStep_def min_def max_def)
  then show ?case by (simp add: Cons.IH)
qed

lemma boundingBox_MinMax:
  assumes "ps \<noteq> []"
  shows "boundingBox ps =
           (Min (px ` set ps), Max (px ` set ps), Min (py ` set ps), Max (py ` set ps))"
proof -
  obtain p qs where ps: "ps = p # qs" using assms by (cases ps) auto
  have a: "fold min (map px ps) (px p) = Min (px ` set ps)"
    using Min.set_eq_fold [of "px p" "map px ps"] by (simp add: ps)
  have b: "fold max (map px ps) (px p) = Max (px ` set ps)"
    using Max.set_eq_fold [of "px p" "map px ps"] by (simp add: ps)
  have c: "fold min (map py ps) (py p) = Min (py ` set ps)"
    using Min.set_eq_fold [of "py p" "map py ps"] by (simp add: ps)
  have d: "fold max (map py ps) (py p) = Max (py ` set ps)"
    using Max.set_eq_fold [of "py p" "map py ps"] by (simp add: ps)
  have "ps ! 0 = p" by (simp add: ps)
  then show ?thesis
    by (simp add: boundingBox_def Let_def fold_bboxStep a b c d)
qed

lemma fold_bboxLoopStep_Fin:
  "fold bboxLoopStep ps (Fin a, Fin b, Fin c, Fin d) =
     (case fold bboxStep ps (a, b, c, d) of (minX, maxX, minY, maxY) \<Rightarrow>
        (Fin minX, Fin maxX, Fin minY, Fin maxY))"
proof (induction ps arbitrary: a b c d)
  case Nil
  show ?case by simp
next
  case (Cons p ps)
  have "bboxLoopStep p (Fin a, Fin b, Fin c, Fin d) =
      (case bboxStep p (a, b, c, d) of (minX, maxX, minY, maxY) \<Rightarrow>
         (Fin minX, Fin maxX, Fin minY, Fin maxY))"
    by (simp add: bboxLoopStep_def bboxStep_def)
  then show ?case
    by (simp add: Cons.IH split: prod.splits)
qed

lemma bboxLoop_boundingBox:
  assumes "ps \<noteq> []"
  shows "bboxLoop ps =
     (case boundingBox ps of (minX, maxX, minY, maxY) \<Rightarrow>
        (Fin minX, Fin maxX, Fin minY, Fin maxY))"
proof -
  obtain p qs where ps: "ps = p # qs" using assms by (cases ps) auto
  have first: "bboxLoopStep p (PInf, NInf, PInf, NInf) = (Fin (px p), Fin (px p), Fin (py p), Fin (py p))"
    by (simp add: bboxLoopStep_def)
  have again: "bboxStep p (px p, px p, py p, py p) = (px p, px p, py p, py p)"
    by (simp add: bboxStep_def)
  show ?thesis
    by (simp add: bboxLoop_def boundingBox_def ps first again fold_bboxLoopStep_Fin)
qed

lemma width_MinMax: "ps \<noteq> [] \<Longrightarrow> width ps = Max (px ` set ps) - Min (px ` set ps)"
  by (simp add: width_def boundingBox_MinMax)

lemma height_MinMax: "ps \<noteq> [] \<Longrightarrow> height ps = Max (py ` set ps) - Min (py ` set ps)"
  by (simp add: height_def boundingBox_MinMax)

lemma width_nonneg: "ps \<noteq> [] \<Longrightarrow> 0 \<le> width ps"
  by (simp add: width_MinMax)

lemma height_nonneg: "ps \<noteq> [] \<Longrightarrow> 0 \<le> height ps"
  by (simp add: height_MinMax)

subsection \<open>Shoelace\<close>

lemma fold_shoelace:
  "fold (\<lambda>i (acc::real). acc + f i - g i) xs a = a + sum_list (map (\<lambda>i. f i - g i) xs)"
  by (induction xs arbitrary: a) auto

lemma shoelace_sum:
  "shoelace ps =
     (\<Sum>i = 0..<length ps. px (ps ! i) * py (ps ! ((i + 1) mod length ps))
                           - px (ps ! ((i + 1) mod length ps)) * py (ps ! i))"
  by (simp add: shoelace_def Let_def fold_shoelace interv_sum_list_conv_sum_set_nat)


subsection \<open>The search loop of the simplifier\<close>

lemma fold_farthest:
  assumes "fold (\<lambda>i (dmax, index). let d = f i in if d > dmax then (d, i) else (dmax, index))
             xs (d0, i0) = (dmax, index)"
  shows "(d0::real) \<le> dmax \<and> (\<forall>i\<in>set xs. f i \<le> dmax)
         \<and> ((dmax = d0 \<and> index = (i0::nat)) \<or> (index \<in> set xs \<and> f index = dmax \<and> d0 < dmax))"
  using assms
proof (induction xs arbitrary: d0 i0)
  case Nil
  then show ?case by simp
next
  case (Cons a xs)
  show ?case
  proof (cases "f a > d0")
    case True
    then have "fold (\<lambda>i (dmax, index). let d = f i in if d > dmax then (d, i) else (dmax, index))
                 xs (f a, a) = (dmax, index)"
      using Cons.prems by (simp add: Let_def)
    from Cons.IH [OF this] True show ?thesis by auto
  next
    case False
    then have "fold (\<lambda>i (dmax, index). let d = f i in if d > dmax then (d, i) else (dmax, index))
                 xs (d0, i0) = (dmax, index)"
      using Cons.prems by (simp add: Let_def)
    from Cons.IH [OF this] False show ?thesis by auto
  qed
qed

lemma farthest_props:
  assumes "farthest ps = (dmax, index)"
  shows "0 \<le> dmax"
    and "\<forall>i. 1 \<le> i \<and> i < length ps - 1 \<longrightarrow>
           perpendicularDistance (ps ! i) (ps ! 0) (ps ! (length ps - 1)) \<le> dmax"
    and "(dmax = 0 \<and> index = 0)
          \<or> (1 \<le> index \<and> index < length ps - 1 \<and> 0 < dmax
              \<and> perpendicularDistance (ps ! index) (ps ! 0) (ps ! (length ps - 1)) = dmax)"
  using fold_farthest [of "\<lambda>i. perpendicularDistance (ps ! i) (ps ! 0) (ps ! (length ps - 1))"
      "[1..<length ps - 1]" 0 0 dmax index] assms
  by (auto simp: farthest_def Let_def)

lemma slice_0: "slice 0 k xs = take k xs"
  by (simp add: slice_def)

lemma slice_to_end: "length xs \<le> k \<Longrightarrow> slice i k xs = drop i xs"
  by (simp add: slice_def)

subsection \<open>The equations of the simplifier, one for each path\<close>

lemma rdp_short: "length ps < 3 \<Longrightarrow> ramerDouglasPeucker ps eps = Some ps"
  by (subst ramerDouglasPeucker.simps) simp

lemma rdp_collapse:
  "\<not> length ps < 3 \<Longrightarrow> \<not> fst (farthest ps) > eps \<Longrightarrow>
   ramerDouglasPeucker ps eps = Some [ps ! 0, ps ! (length ps - 1)]"
  by (subst ramerDouglasPeucker.simps) (simp add: case_prod_beta Let_def)

lemma rdp_split:
  "\<not> length ps < 3 \<Longrightarrow> fst (farthest ps) > eps \<Longrightarrow>
   ramerDouglasPeucker ps eps =
     do {
       recResults1 \<leftarrow> ramerDouglasPeucker (take (snd (farthest ps) + 1) ps) eps;
       recResults2 \<leftarrow> ramerDouglasPeucker (drop (snd (farthest ps)) ps) eps;
       Some (butlast recResults1 @ recResults2)
     }"
  by (subst ramerDouglasPeucker.simps)
     (simp add: case_prod_beta Let_def slice_0 slice_to_end butlast_conv_take)

subsection \<open>The simplifier returns for a tolerance that is not negative\<close>

lemma rdp_total: "0 \<le> eps \<Longrightarrow> \<exists>r. ramerDouglasPeucker ps eps = Some r"
proof (induction "length ps" arbitrary: ps rule: less_induct)
  case less
  show ?case
  proof (cases "length ps < 3")
    case True
    then show ?thesis by (simp add: rdp_short)
  next
    case long: False
    obtain dmax index where f: "farthest ps = (dmax, index)" by (cases "farthest ps")
    show ?thesis
    proof (cases "dmax > eps")
      case False
      then show ?thesis using long f by (simp add: rdp_collapse)
    next
      case True
      then have "0 < dmax" using less.prems by simp
      with farthest_props(3) [OF f] have ix: "1 \<le> index" "index < length ps - 1" by auto
      have "length (take (index + 1) ps) < length ps" using ix by simp
      from less.hyps [OF this less.prems]
      obtain r1 where r1: "ramerDouglasPeucker (take (index + 1) ps) eps = Some r1" by blast
      have "length (drop index ps) < length ps" using ix by simp
      from less.hyps [OF this less.prems]
      obtain r2 where r2: "ramerDouglasPeucker (drop index ps) eps = Some r2" by blast
      show ?thesis using long True f r1 r2 by (simp add: rdp_split)
    qed
  qed
qed

subsection \<open>What the simplifier returns\<close>

lemma rdp_result:
  assumes "ramerDouglasPeucker ps eps = Some r"
  shows "length r \<le> length ps \<and> (ps \<noteq> [] \<longrightarrow> r \<noteq> [] \<and> hd r = hd ps \<and> last r = last ps)"
proof (rule ramerDouglasPeucker.raw_induct
    [where P = "\<lambda>ps eps r. length r \<le> length ps
                  \<and> (ps \<noteq> [] \<longrightarrow> r \<noteq> [] \<and> hd r = hd ps \<and> last r = last ps)", OF _ assms])
  fix rdp :: "Point list \<Rightarrow> real \<Rightarrow> Point list option" and ps eps r
  assume IH: "\<And>ps eps r. rdp ps eps = Some r \<Longrightarrow>
      length r \<le> length ps \<and> (ps \<noteq> [] \<longrightarrow> r \<noteq> [] \<and> hd r = hd ps \<and> last r = last ps)"
  assume body: "(if length ps < 3 then Some ps
      else let (dmax, index) = farthest ps; end = length ps - 1
           in if eps < dmax
              then rdp (slice 0 (index + 1) ps) eps \<bind>
                   (\<lambda>recResults1. rdp (slice index (end + 1) ps) eps \<bind>
                   (\<lambda>recResults2. Some (slice 0 (length recResults1 - 1) recResults1 @ recResults2)))
              else Some [ps ! 0, ps ! end]) = Some r"
  show "length r \<le> length ps \<and> (ps \<noteq> [] \<longrightarrow> r \<noteq> [] \<and> hd r = hd ps \<and> last r = last ps)"
  proof (cases "length ps < 3")
    case True
    then show ?thesis using body by simp
  next
    case long: False
    obtain dmax index where f: "farthest ps = (dmax, index)" by (cases "farthest ps")
    show ?thesis
    proof (cases "dmax > eps")
      case False
      then have "r = [ps ! 0, ps ! (length ps - 1)]"
        using body long f by simp
      moreover have "ps \<noteq> []" using long by auto
      ultimately show ?thesis using long by (simp add: hd_conv_nth last_conv_nth)
    next
      case True
      from farthest_props(3) [OF f] long have ix: "index < length ps - 1" by auto
      from body long f True
      obtain r1 r2 where r1: "rdp (take (index + 1) ps) eps = Some r1"
        and r2: "rdp (drop index ps) eps = Some r2"
        and r: "r = butlast r1 @ r2"
        by (auto simp: slice_0 slice_to_end butlast_conv_take split: bind_splits)
      have ne1: "take (index + 1) ps \<noteq> []" and ne2: "drop index ps \<noteq> []" and ne: "ps \<noteq> []"
        using long ix by auto
      have l1: "length (take (index + 1) ps) = index + 1" using ix by simp
      have t1: "hd (take (index + 1) ps) = hd ps" by simp
      have t2: "last (take (index + 1) ps) = ps ! index"
        using ix by (simp add: take_Suc_conv_app_nth)
      from IH [OF r1] ne1 have h1: "length r1 \<le> index + 1" "r1 \<noteq> []"
        "hd r1 = hd ps" "last r1 = ps ! index"
        unfolding l1 t1 t2 by simp_all
      from IH [OF r2] ne2 have h2: "length r2 \<le> length ps - index" "r2 \<noteq> []"
        "hd r2 = ps ! index" "last r2 = last ps"
        using ix by (auto simp: hd_drop_conv_nth)
      have len: "length r \<le> length ps" using h1(1) h2(1) ix by (simp add: r)
      have hd: "hd r = hd ps"
      proof (cases "butlast r1 = []")
        case True
        then have "r1 = [hd r1]" using h1(2) by (cases r1) (auto split: if_splits)
        then have "last r1 = hd r1" by (metis last.simps)
        then show ?thesis using True h1 h2 by (simp add: r)
      next
        case False
        then have "hd (butlast r1) = hd r1" by (cases r1) (auto split: if_splits)
        then show ?thesis using False h1 by (simp add: r)
      qed
      show ?thesis using len hd h2 by (simp add: r)
    qed
  qed
qed

lemma rdp_length_ge2:
  assumes "ramerDouglasPeucker ps eps = Some r"
  shows "2 \<le> length ps \<longrightarrow> 2 \<le> length r"
proof (rule ramerDouglasPeucker.raw_induct
    [where P = "\<lambda>ps eps r. 2 \<le> length ps \<longrightarrow> 2 \<le> length r", OF _ assms])
  fix rdp :: "Point list \<Rightarrow> real \<Rightarrow> Point list option" and ps eps r
  assume IH: "\<And>ps eps r. rdp ps eps = Some r \<Longrightarrow> 2 \<le> length ps \<longrightarrow> 2 \<le> length r"
  assume body: "(if length ps < 3 then Some ps
      else let (dmax, index) = farthest ps; end = length ps - 1
           in if eps < dmax
              then rdp (slice 0 (index + 1) ps) eps \<bind>
                   (\<lambda>recResults1. rdp (slice index (end + 1) ps) eps \<bind>
                   (\<lambda>recResults2. Some (slice 0 (length recResults1 - 1) recResults1 @ recResults2)))
              else Some [ps ! 0, ps ! end]) = Some r"
  show "2 \<le> length ps \<longrightarrow> 2 \<le> length r"
  proof (cases "length ps < 3")
    case True
    then show ?thesis using body by simp
  next
    case long: False
    obtain dmax index where f: "farthest ps = (dmax, index)" by (cases "farthest ps")
    show ?thesis
    proof (cases "dmax > eps")
      case False
      then show ?thesis using body long f by auto
    next
      case True
      from farthest_props(3) [OF f] long have ix: "index < length ps - 1" by auto
      from body long f True
      obtain r1 r2 where r2: "rdp (drop index ps) eps = Some r2"
        and r: "r = butlast r1 @ r2"
        by (auto simp: slice_0 slice_to_end butlast_conv_take split: bind_splits)
      have "2 \<le> length (drop index ps)" using ix by simp
      with IH [OF r2] show ?thesis by (simp add: r)
    qed
  qed
qed

subsection \<open>The stages of analyzeShape\<close>

lemma epsilon_ge5: "5 \<le> epsilon ps"
  by (simp add: epsilon_def)

lemma simplified_exists:
  assumes "ps \<noteq> []"
  obtains simplified where "ramerDouglasPeucker ps (epsilon ps) = Some simplified"
    and "simplified \<noteq> []" and "length simplified \<le> length ps"
    and "hd simplified = hd ps" and "last simplified = last ps"
proof -
  have "0 \<le> epsilon ps" using epsilon_ge5 [of ps] by simp
  from rdp_total [OF this] obtain r where r: "ramerDouglasPeucker ps (epsilon ps) = Some r"
    by blast
  from rdp_result [OF r] assms that [OF r] show thesis by blast
qed

lemma analyzeShape_line:
  assumes "10 \<le> length ps" "jsgt (linearity ps) 0.94"
  shows "analyzeShape ps =
           Inr \<lparr>kind = Line, score = linearity ps,
                data = LineData (ps ! 0) (ps ! (length ps - 1))\<rparr>"
  using assms by (simp add: analyzeShape_def)

lemma analyzeShape_fill:
  assumes "10 \<le> length ps" "\<not> jsgt (linearity ps) 0.94" "jsgt (fillRatio ps) 0.80"
  shows "analyzeShape ps =
           Inr \<lparr>kind = Rect, score = fillRatio ps,
                data = RectData (fst (boundingBox ps)) (fst (snd (snd (boundingBox ps))))
                         (width ps) (height ps)\<rparr>"
  using assms by (simp add: analyzeShape_def case_prod_beta)

lemma analyzeShape_late:
  assumes "10 \<le> length ps" "\<not> jsgt (linearity ps) 0.94" "\<not> jsgt (fillRatio ps) 0.80"
    and "ramerDouglasPeucker ps (epsilon ps) = Some simplified" "simplified \<noteq> []"
  shows "analyzeShape ps =
     (let vCount = length (vertices ps simplified)
      in if vCount = 3
         then Inr \<lparr>kind = Triangle, score = Fin 0.9,
                   data = TriangleData (centerX ps) (centerY ps) (width ps) (height ps)\<rparr>
         else if vCount \<ge> 4 \<and> vCount \<le> 6
         then Inr \<lparr>kind = Rect, score = Fin 0.9,
                   data = RectData (fst (boundingBox ps)) (fst (snd (snd (boundingBox ps))))
                            (width ps) (height ps)\<rparr>
         else if jslt (normalizedVariance ps) 0.05 \<and> jsgt (fillRatio ps) 0.6
         then Inr \<lparr>kind = Circle, score = jsrsub 1 (normalizedVariance ps),
                   data = CircleData (centerX ps) (centerY ps) (avgRadius ps)\<rparr>
         else if jsgt (fillRatio ps) 0.35 \<and> jslt (fillRatio ps) 0.65
         then Inr \<lparr>kind = Triangle, score = Fin 0.7,
                   data = TriangleData (centerX ps) (centerY ps) (width ps) (height ps)\<rparr>
         else Inr \<lparr>kind = Unknown, score = Fin 0, data = NoData\<rparr>)"
  using assms by (simp add: analyzeShape_def case_prod_beta Let_def)

lemma vertices_short: "length simplified \<le> 3 \<Longrightarrow> vertices ps simplified = simplified"
  by (simp add: vertices_def)

lemma closed_not_line:
  assumes "ps ! 0 = ps ! (length ps - 1)"
  shows "\<not> jsgt (linearity ps) 0.94"
proof -
  have "getDistance (ps ! 0) (ps ! (length ps - 1)) = 0"
    unfolding assms by (rule getDistance_self)
  then show ?thesis unfolding linearity_def Let_def by (simp add: jsdiv_def)
qed

subsection \<open>The division of the circle test\<close>

lemma avgRadius_sum:
  "avgRadius ps = (\<Sum>p\<leftarrow>ps. getDistance p (center ps)) / real (length ps)"
  by (simp add: avgRadius_def fold_add_sum)

lemma radiusVariance_sum:
  "radiusVariance ps =
     (\<Sum>p\<leftarrow>ps. (getDistance p (center ps) - avgRadius ps)\<^sup>2) / real (length ps)"
  by (simp add: radiusVariance_def Let_def fold_add_sum)

lemma avgRadius_nonneg: "0 \<le> avgRadius ps"
  unfolding avgRadius_sum
  by (intro divide_nonneg_nonneg sum_list_nonneg) (auto simp: getDistance_nonneg)

lemma radiusVariance_nonneg: "0 \<le> radiusVariance ps"
  unfolding radiusVariance_sum
  by (intro divide_nonneg_nonneg sum_list_nonneg) auto

lemma radiusVariance_zero:
  assumes "ps \<noteq> []" "avgRadius ps = 0"
  shows "radiusVariance ps = 0"
proof -
  have "(\<Sum>p\<leftarrow>ps. getDistance p (center ps)) = 0"
    using assms by (simp add: avgRadius_sum)
  then have "\<forall>p\<in>set ps. getDistance p (center ps) = 0"
    by (subst (asm) sum_list_nonneg_eq_0_iff) (auto simp: getDistance_nonneg)
  then have "map (\<lambda>p. (getDistance p (center ps) - avgRadius ps)\<^sup>2) ps = map (\<lambda>p. 0) ps"
    using assms(2) by (intro map_cong) auto
  then show ?thesis by (simp only: radiusVariance_sum) simp
qed

lemma normalizedVariance_cases:
  assumes "ps \<noteq> []"
  shows "(avgRadius ps = 0 \<and> normalizedVariance ps = NaN)
       \<or> (\<exists>v. normalizedVariance ps = Fin v \<and> 0 \<le> v)"
proof (cases "avgRadius ps = 0")
  case True
  then show ?thesis
    using radiusVariance_zero [OF assms] by (simp add: normalizedVariance_def jsdiv_def)
next
  case False
  then show ?thesis
    using radiusVariance_nonneg [of ps] by (simp add: normalizedVariance_def jsdiv_def)
qed

subsection \<open>The line test\<close>

text \<open>
  Claim C4. A stroke of at least 10 points whose linearity (the distance from its first to
  its last point, divided by the length of its path) exceeds 0.94 is classified
  \<^verbatim>\<open>line\<close>; the score is that linearity and the payload is the first and the last
  point. Nothing but the length and the linearity is assumed: the decision is taken before
  the bounding box and the area are looked at, whatever they are.
\<close>

theorem analyzeShape_line_first:
  assumes "10 \<le> length originalPoints"
    and "jsgt (jsdiv (getDistance (originalPoints ! 0) (originalPoints ! (length originalPoints - 1)))
                 (getPathLength originalPoints)) 0.94"
  shows "analyzeShape originalPoints =
           Inr \<lparr>kind = Line,
                score = jsdiv (getDistance (originalPoints ! 0)
                                 (originalPoints ! (length originalPoints - 1)))
                          (getPathLength originalPoints),
                data = LineData (originalPoints ! 0)
                         (originalPoints ! (length originalPoints - 1))\<rparr>"
  using assms analyzeShape_line [of originalPoints] by (simp add: linearity_def)

lemma diag_path: "getPathLength diagonalStroke = 45"
  by (simp add: diagonalStroke_def getPathLength_Cons2 getPathLength_single getDistance_def)

lemma diag_disp: "getDistance (diagonalStroke ! 0) (diagonalStroke ! (length diagonalStroke - 1)) = 45"
  by (simp add: diagonalStroke_def getDistance_def)

theorem analyzeShape_line_first_witness:
  "10 \<le> length diagonalStroke
   \<and> jsgt (jsdiv (getDistance (diagonalStroke ! 0) (diagonalStroke ! (length diagonalStroke - 1)))
              (getPathLength diagonalStroke)) 0.94
   \<and> analyzeShape diagonalStroke =
        Inr \<lparr>kind = Line, score = Fin 1, data = LineData (pt 0 0) (pt 27 36)\<rparr>"
proof -
  have len: "10 \<le> length diagonalStroke" by (simp add: diagonalStroke_def)
  have lin: "jsdiv (getDistance (diagonalStroke ! 0) (diagonalStroke ! (length diagonalStroke - 1)))
               (getPathLength diagonalStroke) = Fin 1"
    unfolding diag_path diag_disp by (simp add: jsdiv_def)
  have gt: "jsgt (jsdiv (getDistance (diagonalStroke ! 0) (diagonalStroke ! (length diagonalStroke - 1)))
               (getPathLength diagonalStroke)) 0.94"
    unfolding lin by simp
  have ends: "diagonalStroke ! 0 = pt 0 0" "diagonalStroke ! (length diagonalStroke - 1) = pt 27 36"
    by (simp_all add: diagonalStroke_def)
  have "analyzeShape diagonalStroke =
        Inr \<lparr>kind = Line, score = Fin 1, data = LineData (pt 0 0) (pt 27 36)\<rparr>"
    using analyzeShape_line_first [OF len gt] unfolding lin unfolding ends .
  with len gt show ?thesis by (intro conjI)
qed

subsection \<open>The shortcut on the fill ratio\<close>

text \<open>
  Claim C5. A stroke of at least 10 points that fails the line test and whose fill ratio
  (the shoelace area of the stroke, closed from its last point to its first, over the area
  of its bounding box) exceeds 0.80 is classified \<^verbatim>\<open>rect\<close>; the score is the fill
  ratio and the payload is the left edge, the top edge, the width and the height of the
  axis-aligned bounding box. The simplifier and the later stages have no part in it.
\<close>

theorem analyzeShape_fill_shortcut:
  assumes "10 \<le> length originalPoints"
    and "\<not> jsgt (linearity originalPoints) 0.94"
    and "jsgt (jsdiv (\<bar>shoelace originalPoints\<bar> / 2)
                 ((Max (px ` set originalPoints) - Min (px ` set originalPoints))
                  * (Max (py ` set originalPoints) - Min (py ` set originalPoints)))) 0.80"
  shows "analyzeShape originalPoints =
           Inr \<lparr>kind = Rect,
                score = jsdiv (\<bar>shoelace originalPoints\<bar> / 2)
                          ((Max (px ` set originalPoints) - Min (px ` set originalPoints))
                           * (Max (py ` set originalPoints) - Min (py ` set originalPoints))),
                data = RectData (Min (px ` set originalPoints)) (Min (py ` set originalPoints))
                         (Max (px ` set originalPoints) - Min (px ` set originalPoints))
                         (Max (py ` set originalPoints) - Min (py ` set originalPoints))\<rparr>"
proof -
  have ne: "originalPoints \<noteq> []" using assms(1) by auto
  have fr: "fillRatio originalPoints =
      jsdiv (\<bar>shoelace originalPoints\<bar> / 2)
        ((Max (px ` set originalPoints) - Min (px ` set originalPoints))
         * (Max (py ` set originalPoints) - Min (py ` set originalPoints)))"
    by (simp add: fillRatio_def area_def width_MinMax [OF ne] height_MinMax [OF ne])
  show ?thesis
    using analyzeShape_fill [OF assms(1,2)] assms(3)
    by (simp add: fr boundingBox_MinMax [OF ne] width_MinMax [OF ne] height_MinMax [OF ne])
qed

lemma shoelace_zip:
  "shoelace ps = (\<Sum>(p, q)\<leftarrow>zip ps (rotate1 ps). px p * py q - px q * py p)"
proof -
  have "zip ps (rotate1 ps) = map (\<lambda>i. (ps ! i, ps ! ((i + 1) mod length ps))) [0..<length ps]"
    by (rule nth_equalityI) (auto simp: nth_rotate1)
  then show ?thesis
    by (simp add: shoelace_def Let_def fold_shoelace comp_def)
qed

lemma rect_path: "getPathLength rectangleStroke = 9"
  by (simp add: rectangleStroke_def getPathLength_Cons2 getPathLength_single getDistance_def)

lemma rect_shoelace: "shoelace rectangleStroke = 12"
  by (simp add: rectangleStroke_def shoelace_zip)

lemma rect_box: "Min (px ` set rectangleStroke) = 0" "Max (px ` set rectangleStroke) = 2"
   "Min (py ` set rectangleStroke) = 0" "Max (py ` set rectangleStroke) = 3"
  by (simp_all add: rectangleStroke_def)

theorem analyzeShape_fill_shortcut_witness:
  "10 \<le> length rectangleStroke
   \<and> \<not> jsgt (linearity rectangleStroke) 0.94
   \<and> jsgt (jsdiv (\<bar>shoelace rectangleStroke\<bar> / 2)
                 ((Max (px ` set rectangleStroke) - Min (px ` set rectangleStroke))
                  * (Max (py ` set rectangleStroke) - Min (py ` set rectangleStroke)))) 0.80
   \<and> analyzeShape rectangleStroke =
        Inr \<lparr>kind = Rect, score = Fin 1, data = RectData 0 0 2 3\<rparr>"
proof -
  have len: "10 \<le> length rectangleStroke" by (simp add: rectangleStroke_def)
  have "getDistance (rectangleStroke ! 0) (rectangleStroke ! (length rectangleStroke - 1)) = 1"
    by (simp add: rectangleStroke_def getDistance_def)
  then have lin: "\<not> jsgt (linearity rectangleStroke) 0.94"
    by (simp add: linearity_def rect_path jsdiv_def)
  have fr: "jsdiv (\<bar>shoelace rectangleStroke\<bar> / 2)
                 ((Max (px ` set rectangleStroke) - Min (px ` set rectangleStroke))
                  * (Max (py ` set rectangleStroke) - Min (py ` set rectangleStroke))) = Fin 1"
    by (simp add: rect_shoelace rect_box jsdiv_def)
  have gt: "jsgt (jsdiv (\<bar>shoelace rectangleStroke\<bar> / 2)
                 ((Max (px ` set rectangleStroke) - Min (px ` set rectangleStroke))
                  * (Max (py ` set rectangleStroke) - Min (py ` set rectangleStroke)))) 0.80"
    unfolding fr by simp
  have "analyzeShape rectangleStroke =
        Inr \<lparr>kind = Rect, score = Fin 1, data = RectData 0 0 2 3\<rparr>"
    using analyzeShape_fill_shortcut [OF len lin gt] unfolding fr unfolding rect_box by simp
  with len lin gt show ?thesis by (intro conjI)
qed

subsection \<open>Every path through analyzeShape\<close>



lemma jsgt_nonneg: "jsgt v c \<Longrightarrow> 0 \<le> c \<Longrightarrow> v \<noteq> NaN \<and> \<not> jslt v 0"
  by (cases v) auto

text \<open>
  The score of a \<^verbatim>\<open>circle\<close> is \<^verbatim>\<open>1 - normalizedVariance\<close> for a \<^verbatim>\<open>normalizedVariance\<close>
  that has passed the comparison \<^verbatim>\<open>< 0.05\<close>. It is a number, and it is far above 0.7. The
  exact difference is above 0.95 as well; the source rounds the difference, and for a
  \<^verbatim>\<open>normalizedVariance\<close> next to 0.05 the rounded one is the double nearest to 0.95
  itself, so the theorems below state the score and the comparison, not this bound.
\<close>

lemma circle_score:
  assumes "jslt v 0.05"
  shows "jsgt (jsrsub 1 v) 0.7"
  using assms by (cases v) auto

lemma circle_score_exact:
  assumes "jslt v 0.05"
  shows "jsgt (jsrsub 1 v) 0.95"
  using assms by (cases v) auto

text \<open>
  The eight returns of \<^verbatim>\<open>analyzeShape\<close>, each with the comparisons that lead to it. The
  comparisons are taken as they come out: nothing is used of the value of a quotient.
\<close>

lemma analyzeShape_stages:
  obtains
    (short) "length ps < 10"
      "analyzeShape ps = Inr \<lparr>kind = Unknown, score = Fin 0, data = NoData\<rparr>"
  | (line) "\<not> length ps < 10" "jsgt (linearity ps) 0.94"
      "analyzeShape ps = Inr \<lparr>kind = Line, score = linearity ps,
                               data = LineData (ps ! 0) (ps ! (length ps - 1))\<rparr>"
  | (fill) "\<not> length ps < 10" "\<not> jsgt (linearity ps) 0.94" "jsgt (fillRatio ps) 0.80"
      "analyzeShape ps = Inr \<lparr>kind = Rect, score = fillRatio ps,
          data = RectData (fst (boundingBox ps)) (fst (snd (snd (boundingBox ps))))
                   (width ps) (height ps)\<rparr>"
  | (tri3) simplified where
      "\<not> length ps < 10" "\<not> jsgt (linearity ps) 0.94" "\<not> jsgt (fillRatio ps) 0.80"
      "ramerDouglasPeucker ps (epsilon ps) = Some simplified"
      "length (vertices ps simplified) = 3"
      "analyzeShape ps = Inr \<lparr>kind = Triangle, score = Fin 0.9,
          data = TriangleData (centerX ps) (centerY ps) (width ps) (height ps)\<rparr>"
  | (rect46) simplified where
      "\<not> length ps < 10" "\<not> jsgt (linearity ps) 0.94" "\<not> jsgt (fillRatio ps) 0.80"
      "ramerDouglasPeucker ps (epsilon ps) = Some simplified"
      "length (vertices ps simplified) \<noteq> 3"
      "4 \<le> length (vertices ps simplified) \<and> length (vertices ps simplified) \<le> 6"
      "analyzeShape ps = Inr \<lparr>kind = Rect, score = Fin 0.9,
          data = RectData (fst (boundingBox ps)) (fst (snd (snd (boundingBox ps))))
                   (width ps) (height ps)\<rparr>"
  | (circle) simplified where
      "\<not> length ps < 10" "\<not> jsgt (linearity ps) 0.94" "\<not> jsgt (fillRatio ps) 0.80"
      "ramerDouglasPeucker ps (epsilon ps) = Some simplified"
      "length (vertices ps simplified) \<noteq> 3"
      "\<not> (4 \<le> length (vertices ps simplified) \<and> length (vertices ps simplified) \<le> 6)"
      "jslt (normalizedVariance ps) 0.05 \<and> jsgt (fillRatio ps) 0.6"
      "analyzeShape ps = Inr \<lparr>kind = Circle, score = jsrsub 1 (normalizedVariance ps),
          data = CircleData (centerX ps) (centerY ps) (avgRadius ps)\<rparr>"
  | (tri) simplified where
      "\<not> length ps < 10" "\<not> jsgt (linearity ps) 0.94" "\<not> jsgt (fillRatio ps) 0.80"
      "ramerDouglasPeucker ps (epsilon ps) = Some simplified"
      "length (vertices ps simplified) \<noteq> 3"
      "\<not> (4 \<le> length (vertices ps simplified) \<and> length (vertices ps simplified) \<le> 6)"
      "\<not> (jslt (normalizedVariance ps) 0.05 \<and> jsgt (fillRatio ps) 0.6)"
      "jsgt (fillRatio ps) 0.35 \<and> jslt (fillRatio ps) 0.65"
      "analyzeShape ps = Inr \<lparr>kind = Triangle, score = Fin 0.7,
          data = TriangleData (centerX ps) (centerY ps) (width ps) (height ps)\<rparr>"
  | (unknown) simplified where
      "\<not> length ps < 10" "\<not> jsgt (linearity ps) 0.94" "\<not> jsgt (fillRatio ps) 0.80"
      "ramerDouglasPeucker ps (epsilon ps) = Some simplified"
      "length (vertices ps simplified) \<noteq> 3"
      "\<not> (4 \<le> length (vertices ps simplified) \<and> length (vertices ps simplified) \<le> 6)"
      "\<not> (jslt (normalizedVariance ps) 0.05 \<and> jsgt (fillRatio ps) 0.6)"
      "\<not> (jsgt (fillRatio ps) 0.35 \<and> jslt (fillRatio ps) 0.65)"
      "analyzeShape ps = Inr \<lparr>kind = Unknown, score = Fin 0, data = NoData\<rparr>"
proof (cases "length ps < 10")
  case True
  then show thesis using short by (simp add: analyzeShape_def)
next
  case long: False
  then have len: "10 \<le> length ps" by simp
  then have ne: "ps \<noteq> []" by auto
  show thesis
  proof (cases "jsgt (linearity ps) 0.94")
    case True
    show thesis by (rule line [OF long True analyzeShape_line [OF len True]])
  next
    case noline: False
    show thesis
    proof (cases "jsgt (fillRatio ps) 0.80")
      case True
      show thesis by (rule fill [OF long noline True analyzeShape_fill [OF len noline True]])
    next
      case nofill: False
      obtain simplified where s: "ramerDouglasPeucker ps (epsilon ps) = Some simplified"
        "simplified \<noteq> []"
        using simplified_exists [OF ne] by metis
      note late = analyzeShape_late [OF len noline nofill s]
      show thesis
      proof (cases "length (vertices ps simplified) = 3")
        case True
        show thesis
          by (rule tri3 [OF long noline nofill s(1) True])
            (simp only: late Let_def if_P [OF True])
      next
        case n3: False
        show thesis
        proof (cases "4 \<le> length (vertices ps simplified) \<and> length (vertices ps simplified) \<le> 6")
          case True
          show thesis
            by (rule rect46 [OF long noline nofill s(1) n3 True])
              (simp only: late Let_def if_not_P [OF n3] if_P [OF True])
        next
          case n46: False
          show thesis
          proof (cases "jslt (normalizedVariance ps) 0.05 \<and> jsgt (fillRatio ps) 0.6")
            case True
            show thesis
              by (rule circle [OF long noline nofill s(1) n3 n46 True])
                (simp only: late Let_def if_not_P [OF n3] if_not_P [OF n46] if_P [OF True])
          next
            case nc: False
            show thesis
            proof (cases "jsgt (fillRatio ps) 0.35 \<and> jslt (fillRatio ps) 0.65")
              case True
              show thesis
                by (rule tri [OF long noline nofill s(1) n3 n46 nc True])
                  (simp only: late Let_def if_not_P [OF n3] if_not_P [OF n46] if_not_P [OF nc]
                     if_P [OF True])
            next
              case False
              show thesis
                by (rule unknown [OF long noline nofill s(1) n3 n46 nc False])
                  (simp only: late Let_def if_not_P [OF n3] if_not_P [OF n46] if_not_P [OF nc]
                     if_not_P [OF False])
            qed
          qed
        qed
      qed
    qed
  qed
qed


subsection \<open>The invariants of the simplifier\<close>

lemma farthest_coincidentTriple: "farthest coincidentTriple = (0, 0)"
  by (simp add: farthest_def coincidentTriple_def perpendicularDistance_def Let_def)

text \<open>
  The claim C3 as stated, for every tolerance, fails on a negative one: on three equal
  points every distance is 0, so \<^verbatim>\<open>dmax > epsilon\<close> holds with \<^verbatim>\<open>index\<close> still 0, and the
  second recursive call is on \<^verbatim>\<open>points.slice(0, end + 1)\<close>, the whole list again. No
  list is returned.
\<close>

theorem ramerDouglasPeucker_diverges: "ramerDouglasPeucker coincidentTriple (- 1) = None"
proof (rule ccontr)
  assume "ramerDouglasPeucker coincidentTriple (- 1) \<noteq> None"
  then obtain r where r: "ramerDouglasPeucker coincidentTriple (- 1) = Some r" by auto
  have "\<not> (coincidentTriple = coincidentTriple \<and> (- 1 :: real) = - 1)"
  proof (rule ramerDouglasPeucker.raw_induct
      [where P = "\<lambda>ps eps r. \<not> (ps = coincidentTriple \<and> eps = - 1)", OF _ r])
    fix rdp :: "Point list \<Rightarrow> real \<Rightarrow> Point list option" and ps eps r
    assume IH: "\<And>ps eps r. rdp ps eps = Some r \<Longrightarrow> \<not> (ps = coincidentTriple \<and> eps = - 1)"
    assume body: "(if length ps < 3 then Some ps
      else let (dmax, index) = farthest ps; end = length ps - 1
           in if eps < dmax
              then rdp (slice 0 (index + 1) ps) eps \<bind>
                   (\<lambda>recResults1. rdp (slice index (end + 1) ps) eps \<bind>
                   (\<lambda>recResults2. Some (slice 0 (length recResults1 - 1) recResults1 @ recResults2)))
              else Some [ps ! 0, ps ! end]) = Some r"
    show "\<not> (ps = coincidentTriple \<and> eps = - 1)"
    proof
      assume eq: "ps = coincidentTriple \<and> eps = - 1"
      have "length coincidentTriple = 3" by (simp add: coincidentTriple_def)
      with body eq obtain r2 where "rdp (slice 0 3 coincidentTriple) (- 1) = Some r2"
        by (auto simp: farthest_coincidentTriple split: bind_splits)
      moreover have "slice 0 3 coincidentTriple = coincidentTriple"
        by (simp add: slice_def coincidentTriple_def)
      ultimately show False using IH by auto
    qed
  qed
  then show False by simp
qed

text \<open>
  Claim C3, amended. For a tolerance that is not negative the simplifier returns, and for
  every tolerance a list of fewer than 3 points is returned unchanged. Whatever the
  tolerance, a list that is returned (a) is no longer than the input and (b) for a
  non-empty input starts with its first point and ends with its last.
\<close>

theorem ramerDouglasPeucker_invariants:
  "(0 \<le> eps \<longrightarrow> (\<exists>r. ramerDouglasPeucker points eps = Some r))
   \<and> (length points < 3 \<longrightarrow> ramerDouglasPeucker points eps = Some points)
   \<and> (\<forall>r. ramerDouglasPeucker points eps = Some r \<longrightarrow>
          length r \<le> length points
          \<and> (points \<noteq> [] \<longrightarrow> r \<noteq> [] \<and> hd r = hd points \<and> last r = last points))"
  using rdp_total [of eps points] rdp_short [of points eps] rdp_result [of points eps]
  by blast

lemma farthest_bentTriple: "farthest bentTriple = (7, 1)"
  by (simp add: farthest_def bentTriple_def perpendicularDistance_def Let_def)

lemma rdp_bentTriple: "ramerDouglasPeucker bentTriple 5 = Some bentTriple"
proof -
  have "take 2 bentTriple = [pt 0 0, pt 5 7]" "drop 1 bentTriple = [pt 5 7, pt 10 0]"
    by (simp_all add: bentTriple_def)
  moreover have "\<not> length bentTriple < 3" by (simp add: bentTriple_def)
  ultimately show ?thesis
    by (simp add: rdp_split farthest_bentTriple rdp_short) (simp add: bentTriple_def)
qed

theorem ramerDouglasPeucker_invariants_witness:
  "(0::real) \<le> 5
   \<and> ramerDouglasPeucker bentTriple 5 = Some [pt 0 0, pt 5 7, pt 10 0]
   \<and> length [pt 0 0, pt 5 7, pt 10 0] \<le> length bentTriple
   \<and> hd [pt 0 0, pt 5 7, pt 10 0] = hd bentTriple
   \<and> last [pt 0 0, pt 5 7, pt 10 0] = last bentTriple
   \<and> length [pt 0 0, pt 10 0] < 3
   \<and> ramerDouglasPeucker [pt 0 0, pt 10 0] 5 = Some [pt 0 0, pt 10 0]"
proof -
  have r: "ramerDouglasPeucker bentTriple 5 = Some [pt 0 0, pt 5 7, pt 10 0]"
    using rdp_bentTriple by (simp add: bentTriple_def)
  have ne: "bentTriple \<noteq> []" by (simp add: bentTriple_def)
  from ramerDouglasPeucker_invariants [of 5 bentTriple] r ne
  have "length [pt 0 0, pt 5 7, pt 10 0] \<le> length bentTriple"
    "hd [pt 0 0, pt 5 7, pt 10 0] = hd bentTriple"
    "last [pt 0 0, pt 5 7, pt 10 0] = last bentTriple"
    by blast+
  moreover from ramerDouglasPeucker_invariants [of 5 "[pt 0 0, pt 10 0]"]
  have "ramerDouglasPeucker [pt 0 0, pt 10 0] 5 = Some [pt 0 0, pt 10 0]" by simp
  ultimately show ?thesis using r by simp
qed

subsection \<open>Totality\<close>

text \<open>
  A search that ends with \<^verbatim>\<open>index\<close> still 0 and \<^verbatim>\<open>dmax\<close> above the tolerance makes no
  progress: the second recursive call is on \<^verbatim>\<open>points.slice(0, end + 1)\<close>, the list
  itself.
\<close>

lemma rdp_no_progress:
  assumes "\<not> length ps < 3" "farthest ps = (dmax, 0)" "eps < dmax"
  shows "ramerDouglasPeucker ps eps = None"
proof (rule ccontr)
  assume "ramerDouglasPeucker ps eps \<noteq> None"
  then obtain r where r: "ramerDouglasPeucker ps eps = Some r" by auto
  have "\<not> (ps = ps \<and> eps = eps)"
  proof (rule ramerDouglasPeucker.raw_induct
      [where P = "\<lambda>qs e r. \<not> (qs = ps \<and> e = eps)", OF _ r])
    fix rdp :: "Point list \<Rightarrow> real \<Rightarrow> Point list option" and qs e r
    assume IH: "\<And>qs e r. rdp qs e = Some r \<Longrightarrow> \<not> (qs = ps \<and> e = eps)"
    assume body: "(if length qs < 3 then Some qs
      else let (dmax, index) = farthest qs; end = length qs - 1
           in if e < dmax
              then rdp (slice 0 (index + 1) qs) e \<bind>
                   (\<lambda>recResults1. rdp (slice index (end + 1) qs) e \<bind>
                   (\<lambda>recResults2. Some (slice 0 (length recResults1 - 1) recResults1 @ recResults2)))
              else Some [qs ! 0, qs ! end]) = Some r"
    show "\<not> (qs = ps \<and> e = eps)"
    proof
      assume eq: "qs = ps \<and> e = eps"
      with body assms obtain r2 where "rdp (slice 0 (length ps - 1 + 1) ps) eps = Some r2"
        by (auto split: bind_splits)
      moreover have "slice 0 (length ps - 1 + 1) ps = ps"
        using assms(1) by (simp add: slice_def)
      ultimately show False using IH by auto
    qed
  qed
  then show False by simp
qed

text \<open>
  The claim C8 as stated has the recursion of the simplifier end on every list of points,
  whatever the tolerance. It fails on three points of one line with the tolerance -1:
  the one distance is 0, \<^verbatim>\<open>dmax > epsilon\<close> holds with \<^verbatim>\<open>index\<close> still 0, and the call
  never returns.
\<close>

theorem ramerDouglasPeucker_not_total: "ramerDouglasPeucker collinearTriple (- 1) = None"
proof -
  have "\<not> length collinearTriple < 3" by (simp add: collinearTriple_def)
  moreover have "farthest collinearTriple = (0, 0)"
    by (simp add: farthest_def collinearTriple_def perpendicularDistance_def Let_def)
  ultimately show ?thesis by (rule rdp_no_progress) simp
qed

text \<open>
  Claim C8, amended. On every list of points \<open>analyzeShape\<close> returns one result, a value
  and not an error, and the score of the result is never \<^verbatim>\<open>NaN\<close>; the call of the
  simplifier that it makes returns; and the simplifier returns on every list of points
  for every tolerance that is not negative (the tolerance of \<open>analyzeShape\<close> is at
  least 5).
\<close>

theorem analyzeShape_total:
  "(\<exists>r. analyzeShape originalPoints = Inr r \<and> score r \<noteq> NaN)
   \<and> (\<exists>simplified. ramerDouglasPeucker originalPoints (epsilon originalPoints) = Some simplified)
   \<and> (0 \<le> eps \<longrightarrow> (\<exists>r. ramerDouglasPeucker points eps = Some r))"
proof (intro conjI impI)
  show "\<exists>r. analyzeShape originalPoints = Inr r \<and> score r \<noteq> NaN"
  proof (cases originalPoints rule: analyzeShape_stages)
    case line
    then show ?thesis using jsgt_nonneg [OF line(2)] by simp
  next
    case fill
    then show ?thesis using jsgt_nonneg [OF fill(3)] by simp
  next
    case circle
    have "jsgt (jsrsub 1 (normalizedVariance originalPoints)) 0.7"
      using circle(7) circle_score by blast
    from jsgt_nonneg [OF this] show ?thesis using circle(8) by simp
  qed simp_all
next
  have "0 \<le> epsilon originalPoints" using epsilon_ge5 [of originalPoints] by simp
  then show "\<exists>simplified. ramerDouglasPeucker originalPoints (epsilon originalPoints) = Some simplified"
    by (rule rdp_total)
next
  assume "0 \<le> eps"
  then show "\<exists>r. ramerDouglasPeucker points eps = Some r" by (rule rdp_total)
qed

subsection \<open>The range of the score\<close>

lemma doubleSquare_facts:
  "10 \<le> length doubleSquareStroke"
  "\<not> jsgt (linearity doubleSquareStroke) 0.94"
  "fillRatio doubleSquareStroke = Fin 2"
  "boundingBox doubleSquareStroke = (0, 10, 0, 10)"
proof -
  show "10 \<le> length doubleSquareStroke" by (simp add: doubleSquareStroke_def)
  have p: "getPathLength doubleSquareStroke = 90"
    by (simp add: doubleSquareStroke_def getPathLength_Cons2 getPathLength_single getDistance_def)
  have d: "getDistance (doubleSquareStroke ! 0) (doubleSquareStroke ! (length doubleSquareStroke - 1)) = 10"
    by (simp add: doubleSquareStroke_def getDistance_def)
  show "\<not> jsgt (linearity doubleSquareStroke) 0.94"
    unfolding linearity_def Let_def p d by (simp add: jsdiv_def)
  show b: "boundingBox doubleSquareStroke = (0, 10, 0, 10)"
    by (simp add: boundingBox_def doubleSquareStroke_def bboxStep_def)
  have s: "shoelace doubleSquareStroke = 400"
    by (simp add: doubleSquareStroke_def shoelace_zip)
  show "fillRatio doubleSquareStroke = Fin 2"
    unfolding fillRatio_def area_def width_def height_def b s by (simp add: jsdiv_def)
qed

text \<open>
  The claim C2 as stated fails on a stroke that goes twice round a square: the shoelace
  sum counts the square twice, the fill ratio is 2, and the shortcut returns it as score.
\<close>

theorem analyzeShape_score_above_one:
  "analyzeShape doubleSquareStroke = Inr \<lparr>kind = Rect, score = Fin 2, data = RectData 0 0 10 10\<rparr>"
  using analyzeShape_fill [OF doubleSquare_facts(1,2)]
  by (simp add: doubleSquare_facts width_def height_def)

text \<open>
  Claim C2, amended. For every list of points the score is a number, never \<^verbatim>\<open>NaN\<close>, and
  not negative. It lies between 0 and 1 for every result but two, whose score is a
  quotient that the source returns as it is: the \<^verbatim>\<open>rect\<close> of the fill-ratio shortcut,
  whose score is the fill ratio, above 0.80, and the \<^verbatim>\<open>line\<close>, whose score is the
  linearity, above 0.94. For these two nothing is stated from above.
\<close>

theorem analyzeShape_score_range:
  "\<exists>r. analyzeShape originalPoints = Inr r \<and> score r \<noteq> NaN \<and> \<not> jslt (score r) 0
     \<and> (kind r = Line \<and> score r = linearity originalPoints
          \<and> jsgt (linearity originalPoints) 0.94
        \<or> kind r = Rect \<and> score r = fillRatio originalPoints
          \<and> jsgt (fillRatio originalPoints) 0.80
        \<or> (\<exists>s. score r = Fin s \<and> 0 \<le> s \<and> s \<le> 1))"
proof (cases originalPoints rule: analyzeShape_stages)
  case short
  then show ?thesis by simp
next
  case line
  then show ?thesis using jsgt_nonneg [OF line(2)] by simp
next
  case fill
  then show ?thesis using jsgt_nonneg [OF fill(3)] by simp
next
  case tri3
  have "\<exists>s::real. Fin 0.9 = Fin s \<and> 0 \<le> s \<and> s \<le> 1" by (rule exI [of _ "9 / 10"]) simp
  then show ?thesis unfolding tri3(6) by simp
next
  case rect46
  have "\<exists>s::real. Fin 0.9 = Fin s \<and> 0 \<le> s \<and> s \<le> 1" by (rule exI [of _ "9 / 10"]) simp
  then show ?thesis unfolding rect46(7) by simp
next
  case circle
  have ne: "originalPoints \<noteq> []" using circle(1) by auto
  from circle(7) normalizedVariance_cases [OF ne]
  obtain v where v: "normalizedVariance originalPoints = Fin v" "0 \<le> v" by auto
  have "v < 0.05" using circle(7) by (simp add: v)
  then show ?thesis using circle(8) v by simp
next
  case tri
  have "\<exists>s::real. Fin 0.7 = Fin s \<and> 0 \<le> s \<and> s \<le> 1" by (rule exI [of _ "7 / 10"]) simp
  then show ?thesis unfolding tri(9) by simp
next
  case unknown
  then show ?thesis by simp
qed

subsection \<open>Degenerate bounding boxes\<close>







subsection \<open>A stroke that stays at one point\<close>

text \<open>
  Ten samples of one point: the path length, the area and the average radius are 0, each
  of the three divisions is \<^verbatim>\<open>0 / 0\<close>, the chord of the simplifier has length 0, and the
  result is \<^verbatim>\<open>unknown\<close>.
\<close>

lemma coincident_facts:
  "10 \<le> length coincidentStroke"
  "linearity coincidentStroke = NaN"
  "width coincidentStroke = 0"
  "normalizedVariance coincidentStroke = NaN"
  "ramerDouglasPeucker coincidentStroke (epsilon coincidentStroke) = Some [pt 4 4, pt 4 4]"
proof -
  show len: "10 \<le> length coincidentStroke" by (simp add: coincidentStroke_def)
  have p: "getPathLength coincidentStroke = 0"
    by (simp add: coincidentStroke_def getPathLength_Cons2 getPathLength_single getDistance_def)
  have e: "coincidentStroke ! 0 = pt 4 4" "coincidentStroke ! (length coincidentStroke - 1) = pt 4 4"
    by (simp_all add: coincidentStroke_def)
  show "linearity coincidentStroke = NaN"
    unfolding linearity_def Let_def p e getDistance_self by (simp add: jsdiv_def)
  have b: "boundingBox coincidentStroke = (4, 4, 4, 4)"
    by (simp add: boundingBox_def coincidentStroke_def bboxStep_def)
  show "width coincidentStroke = 0" by (simp add: width_def b)
  have c: "center coincidentStroke = pt 4 4"
    by (simp add: center_def centerX_def centerY_def width_def height_def b)
  have ne: "coincidentStroke \<noteq> []" by (simp add: coincidentStroke_def)
  have a: "avgRadius coincidentStroke = 0"
    unfolding avgRadius_sum c by (simp add: coincidentStroke_def getDistance_self)
  show "normalizedVariance coincidentStroke = NaN"
    unfolding normalizedVariance_def radiusVariance_zero [OF ne a] a by (simp add: jsdiv_def)
  have f: "farthest coincidentStroke = (0, 0)"
    by (simp add: farthest_def coincidentStroke_def perpendicularDistance_same getDistance_self)
  have "\<not> length coincidentStroke < 3" by (simp add: coincidentStroke_def)
  then show "ramerDouglasPeucker coincidentStroke (epsilon coincidentStroke) = Some [pt 4 4, pt 4 4]"
    using epsilon_ge5 [of coincidentStroke] by (simp add: rdp_collapse f e [simplified])
qed

lemma coincident_fillRatio: "fillRatio coincidentStroke = NaN"
proof -
  have "shoelace coincidentStroke = 0" by (simp add: coincidentStroke_def shoelace_zip)
  then show ?thesis by (simp add: fillRatio_def area_def coincident_facts(3) jsdiv_def)
qed

theorem analyzeShape_total_witness:
  "(0::real) \<le> 5
   \<and> ramerDouglasPeucker coincidentStroke 5 = Some [pt 4 4, pt 4 4]
   \<and> linearity coincidentStroke = NaN
   \<and> fillRatio coincidentStroke = NaN
   \<and> normalizedVariance coincidentStroke = NaN
   \<and> analyzeShape coincidentStroke = Inr \<lparr>kind = Unknown, score = Fin 0, data = NoData\<rparr>"
proof -
  have f: "farthest coincidentStroke = (0, 0)"
    by (simp add: farthest_def coincidentStroke_def perpendicularDistance_same getDistance_self)
  have e: "coincidentStroke ! 0 = pt 4 4" "coincidentStroke ! (length coincidentStroke - Suc 0) = pt 4 4"
    by (simp_all add: coincidentStroke_def)
  have "\<not> length coincidentStroke < 3" by (simp add: coincidentStroke_def)
  then have r5: "ramerDouglasPeucker coincidentStroke 5 = Some [pt 4 4, pt 4 4]"
    by (simp add: rdp_collapse f e)
  have nl: "\<not> jsgt (linearity coincidentStroke) 0.94" unfolding coincident_facts(2) by simp
  have nofill: "\<not> jsgt (fillRatio coincidentStroke) 0.80" unfolding coincident_fillRatio by simp
  have u: "analyzeShape coincidentStroke = Inr \<lparr>kind = Unknown, score = Fin 0, data = NoData\<rparr>"
    using analyzeShape_late [OF coincident_facts(1) nl nofill coincident_facts(5)]
    by (simp add: vertices_short coincident_fillRatio coincident_facts(4))
  from analyzeShape_total [of coincidentStroke 5 coincidentStroke]
  have "\<exists>r. ramerDouglasPeucker coincidentStroke 5 = Some r" by simp
  with r5 coincident_facts(2,4) coincident_fillRatio u show ?thesis by simp
qed

subsection \<open>The two triangles\<close>



subsection \<open>The circle test\<close>

lemma centerX_MinMax:
  "ps \<noteq> [] \<Longrightarrow> centerX ps = Min (px ` set ps) + (Max (px ` set ps) - Min (px ` set ps)) / 2"
  by (simp add: centerX_def width_MinMax boundingBox_MinMax)

lemma centerY_MinMax:
  "ps \<noteq> [] \<Longrightarrow> centerY ps = Min (py ` set ps) + (Max (py ` set ps) - Min (py ` set ps)) / 2"
  by (simp add: centerY_def height_MinMax boundingBox_MinMax)

text \<open>
  Claim C6. Take a stroke of at least 10 points that reaches the circle test: the line
  test and the fill shortcut have failed, and the vertex count is neither 3 nor one of 4
  to 6. Then \<open>avgRadius\<close> is the mean of the distances of the points of the stroke from
  the centre of the bounding box, \<open>normalizedVariance\<close> is the variance of these
  distances divided by the square of \<open>avgRadius\<close>, and the result is \<^verbatim>\<open>circle\<close>, with the
  score \<^verbatim>\<open>1 - normalizedVariance\<close> and the centre and \<open>avgRadius\<close> as payload, exactly when
  \<^verbatim>\<open>normalizedVariance < 0.05\<close> and \<^verbatim>\<open>fillRatio > 0.6\<close>; otherwise the kind is \<^verbatim>\<open>triangle\<close>
  or \<^verbatim>\<open>unknown\<close>.
\<close>

theorem analyzeShape_circle_stage:
  assumes "10 \<le> length originalPoints"
    and "\<not> jsgt (linearity originalPoints) 0.94"
    and "\<not> jsgt (fillRatio originalPoints) 0.80"
    and "ramerDouglasPeucker originalPoints (epsilon originalPoints) = Some simplified"
    and "length (vertices originalPoints simplified) \<noteq> 3"
    and "\<not> (4 \<le> length (vertices originalPoints simplified)
            \<and> length (vertices originalPoints simplified) \<le> 6)"
  shows "center originalPoints =
           \<lparr>px = Min (px ` set originalPoints)
                  + (Max (px ` set originalPoints) - Min (px ` set originalPoints)) / 2,
            py = Min (py ` set originalPoints)
                  + (Max (py ` set originalPoints) - Min (py ` set originalPoints)) / 2\<rparr>
     \<and> avgRadius originalPoints =
           (\<Sum>p\<leftarrow>originalPoints. getDistance p (center originalPoints))
             / real (length originalPoints)
     \<and> normalizedVariance originalPoints =
           jsdiv ((\<Sum>p\<leftarrow>originalPoints.
                      (getDistance p (center originalPoints) - avgRadius originalPoints)\<^sup>2)
                    / real (length originalPoints))
             (avgRadius originalPoints * avgRadius originalPoints)
     \<and> (if jslt (normalizedVariance originalPoints) 0.05 \<and> jsgt (fillRatio originalPoints) 0.6
         then \<exists>v. normalizedVariance originalPoints = Fin v
               \<and> analyzeShape originalPoints =
                   Inr \<lparr>kind = Circle, score = Fin (1 - v),
                        data = CircleData (px (center originalPoints)) (py (center originalPoints))
                                 (avgRadius originalPoints)\<rparr>
         else \<exists>r. analyzeShape originalPoints = Inr r \<and> (kind r = Triangle \<or> kind r = Unknown))"
proof -
  have ne: "originalPoints \<noteq> []" using assms(1) by auto
  have sne: "simplified \<noteq> []" using rdp_result [OF assms(4)] ne by simp
  note late = analyzeShape_late [OF assms(1-4) sne,
      unfolded Let_def if_not_P [OF assms(5)] if_not_P [OF assms(6)]]
  have c: "center originalPoints =
           \<lparr>px = Min (px ` set originalPoints)
                  + (Max (px ` set originalPoints) - Min (px ` set originalPoints)) / 2,
            py = Min (py ` set originalPoints)
                  + (Max (py ` set originalPoints) - Min (py ` set originalPoints)) / 2\<rparr>"
    by (simp add: center_def centerX_MinMax [OF ne] centerY_MinMax [OF ne])
  have nv: "normalizedVariance originalPoints =
           jsdiv ((\<Sum>p\<leftarrow>originalPoints.
                      (getDistance p (center originalPoints) - avgRadius originalPoints)\<^sup>2)
                    / real (length originalPoints))
             (avgRadius originalPoints * avgRadius originalPoints)"
    by (simp only: normalizedVariance_def radiusVariance_sum)
  have res: "if jslt (normalizedVariance originalPoints) 0.05 \<and> jsgt (fillRatio originalPoints) 0.6
         then \<exists>v. normalizedVariance originalPoints = Fin v
               \<and> analyzeShape originalPoints =
                   Inr \<lparr>kind = Circle, score = Fin (1 - v),
                        data = CircleData (px (center originalPoints)) (py (center originalPoints))
                                 (avgRadius originalPoints)\<rparr>
         else \<exists>r. analyzeShape originalPoints = Inr r \<and> (kind r = Triangle \<or> kind r = Unknown)"
  proof (cases "jslt (normalizedVariance originalPoints) 0.05 \<and> jsgt (fillRatio originalPoints) 0.6")
    case True
    with normalizedVariance_cases [OF ne]
    obtain v where v: "normalizedVariance originalPoints = Fin v" by auto
    have "analyzeShape originalPoints =
                   Inr \<lparr>kind = Circle, score = Fin (1 - v),
                        data = CircleData (px (center originalPoints)) (py (center originalPoints))
                                 (avgRadius originalPoints)\<rparr>"
      using late [unfolded if_P [OF True]] by (simp add: v center_def)
    then have "\<exists>v. normalizedVariance originalPoints = Fin v
               \<and> analyzeShape originalPoints =
                   Inr \<lparr>kind = Circle, score = Fin (1 - v),
                        data = CircleData (px (center originalPoints)) (py (center originalPoints))
                                 (avgRadius originalPoints)\<rparr>"
      using v by blast
    then show ?thesis unfolding if_P [OF True] .
  next
    case False
    have "\<exists>r. analyzeShape originalPoints = Inr r \<and> (kind r = Triangle \<or> kind r = Unknown)"
      using late [unfolded if_not_P [OF False]] by (simp split: if_splits)
    then show ?thesis unfolding if_not_P [OF False] .
  qed
  from c avgRadius_sum [of originalPoints] nv res show ?thesis by (intro conjI)
qed

lemma circle_box: "boundingBox circleStroke = (- 5/2, 5/2, - 5/2, 5/2)"
  by (simp add: boundingBox_def circleStroke_def bboxStep_def)

lemma circle_dims:
  "width circleStroke = 5" "height circleStroke = 5"
  "centerX circleStroke = 0" "centerY circleStroke = 0"
  by (simp_all add: width_def height_def centerX_def centerY_def circle_box)

lemma circle_epsilon: "epsilon circleStroke = 5"
proof -
  have "sqrt 50 \<le> 125" by (rule real_le_lsqrt) simp_all
  then show ?thesis by (simp add: epsilon_def diag_def circle_dims)
qed

lemma circle_linearity: "\<not> jsgt (linearity circleStroke) 0.94"
proof -
  have "circleStroke ! 0 = circleStroke ! (length circleStroke - 1)"
    by (simp add: circleStroke_def)
  then have "getDistance (circleStroke ! 0) (circleStroke ! (length circleStroke - 1)) = 0"
    by (simp only: getDistance_self)
  then show ?thesis
    unfolding linearity_def Let_def by (simp add: jsdiv_def)
qed

lemma circle_fillRatio: "fillRatio circleStroke = Fin (37 / 50)"
proof -
  have "shoelace circleStroke = 37" by (simp add: circleStroke_def shoelace_zip)
  then show ?thesis by (simp add: fillRatio_def area_def circle_dims jsdiv_def)
qed

lemma sqrt_less_5: "(sqrt x < 5) = (x < 25)" "(5 < sqrt x) = (25 < x)"
  using real_sqrt_less_iff [of x 25] real_sqrt_less_iff [of 25 x] by simp_all

lemma circle_farthest: "farthest circleStroke = (5, 6)"
  by (simp add: farthest_def circleStroke_def perpendicularDistance_same getDistance_def
        power2_eq_square Let_def sqrt_less_5)

lemma circle_simplified:
  "ramerDouglasPeucker circleStroke (epsilon circleStroke) = Some [pt (5/2) 0, pt (5/2) 0]"
proof -
  have "\<not> length circleStroke < 3" by (simp add: circleStroke_def)
  moreover have "circleStroke ! 0 = pt (5/2) 0" "circleStroke ! (length circleStroke - 1) = pt (5/2) 0"
    by (simp_all add: circleStroke_def)
  ultimately show ?thesis
    unfolding circle_epsilon by (simp add: rdp_collapse circle_farthest)
qed

lemma circle_center: "center circleStroke = pt 0 0"
  by (simp add: center_def circle_dims)

lemma circle_radii: "p \<in> set circleStroke \<Longrightarrow> getDistance p (pt 0 0) = 5/2"
  by (auto simp: circleStroke_def getDistance_def power2_eq_square real_sqrt_divide)

lemma circle_avgRadius: "avgRadius circleStroke = 5/2"
proof -
  have "map (\<lambda>p. getDistance p (pt 0 0)) circleStroke = map (\<lambda>p. 5/2) circleStroke"
    by (rule map_cong) (simp_all add: circle_radii)
  then have "(\<Sum>p\<leftarrow>circleStroke. getDistance p (pt 0 0)) = real (length circleStroke) * (5/2)"
    by (simp only: sum_list_triv)
  then show ?thesis
    unfolding avgRadius_sum circle_center by (simp add: circleStroke_def)
qed

lemma circle_normalizedVariance: "normalizedVariance circleStroke = Fin 0"
proof -
  have "map (\<lambda>p. (getDistance p (pt 0 0) - 5/2)\<^sup>2) circleStroke = map (\<lambda>p. 0) circleStroke"
    by (rule map_cong) (simp_all add: circle_radii)
  then have "(\<Sum>p\<leftarrow>circleStroke. (getDistance p (pt 0 0) - 5/2)\<^sup>2) = 0"
    by (simp only: sum_list_triv mult_zero_right)
  then have "radiusVariance circleStroke = 0"
    unfolding radiusVariance_sum circle_center circle_avgRadius by simp
  then show ?thesis by (simp add: normalizedVariance_def circle_avgRadius jsdiv_def)
qed

theorem analyzeShape_circle_stage_witness:
  "10 \<le> length circleStroke
   \<and> \<not> jsgt (linearity circleStroke) 0.94
   \<and> \<not> jsgt (fillRatio circleStroke) 0.80
   \<and> ramerDouglasPeucker circleStroke (epsilon circleStroke) = Some [pt (5/2) 0, pt (5/2) 0]
   \<and> length (vertices circleStroke [pt (5/2) 0, pt (5/2) 0]) = 2
   \<and> jslt (normalizedVariance circleStroke) 0.05 \<and> jsgt (fillRatio circleStroke) 0.6
   \<and> analyzeShape circleStroke =
        Inr \<lparr>kind = Circle, score = Fin 1, data = CircleData 0 0 (5/2)\<rparr>"
proof -
  have len: "10 \<le> length circleStroke" by (simp add: circleStroke_def)
  have nofill: "\<not> jsgt (fillRatio circleStroke) 0.80" unfolding circle_fillRatio by simp
  have v: "length (vertices circleStroke [pt (5/2) 0, pt (5/2) 0]) = 2"
    by (simp add: vertices_short)
  have v3: "length (vertices circleStroke [pt (5/2) 0, pt (5/2) 0]) \<noteq> 3"
    and v46: "\<not> (4 \<le> length (vertices circleStroke [pt (5/2) 0, pt (5/2) 0])
            \<and> length (vertices circleStroke [pt (5/2) 0, pt (5/2) 0]) \<le> 6)"
    unfolding v by simp_all
  have cond: "jslt (normalizedVariance circleStroke) 0.05 \<and> jsgt (fillRatio circleStroke) 0.6"
    unfolding circle_normalizedVariance circle_fillRatio by simp
  from analyzeShape_circle_stage [OF len circle_linearity nofill circle_simplified v3 v46]
  have "\<exists>v. normalizedVariance circleStroke = Fin v
          \<and> analyzeShape circleStroke =
              Inr \<lparr>kind = Circle, score = Fin (1 - v),
                   data = CircleData (px (center circleStroke)) (py (center circleStroke))
                            (avgRadius circleStroke)\<rparr>"
    unfolding if_P [OF cond] by blast
  then have "analyzeShape circleStroke =
        Inr \<lparr>kind = Circle, score = Fin 1, data = CircleData 0 0 (5/2)\<rparr>"
    unfolding circle_normalizedVariance circle_center circle_avgRadius by simp
  with len circle_linearity nofill circle_simplified v cond show ?thesis by (intro conjI) simp_all
qed

section \<open>The store model and the values\<close>

lemma rdp_st_short:
  "length (st ! points) < 3 \<Longrightarrow> ramerDouglasPeucker_st points eps st = Some (points, st)"
  by (subst ramerDouglasPeucker_st.simps) simp

lemma rdp_st_collapse:
  "\<not> length (st ! points) < 3 \<Longrightarrow> \<not> fst (farthest (st ! points)) > eps \<Longrightarrow>
   ramerDouglasPeucker_st points eps st =
     Some (length st, st @ [[st ! points ! 0, st ! points ! (length (st ! points) - 1)]])"
  by (subst ramerDouglasPeucker_st.simps) (simp add: case_prod_beta Let_def newArray_def)

lemma rdp_st_split:
  "\<not> length (st ! points) < 3 \<Longrightarrow> fst (farthest (st ! points)) > eps \<Longrightarrow>
   ramerDouglasPeucker_st points eps st =
     do {
       (recResults1, st2) \<leftarrow>
         ramerDouglasPeucker_st (length st) eps
           (st @ [take (snd (farthest (st ! points)) + 1) (st ! points)]);
       (recResults2, st4) \<leftarrow>
         ramerDouglasPeucker_st (length st2) eps
           (st2 @ [slice (snd (farthest (st ! points))) (length (st ! points) - 1 + 1)
                     (st2 ! points)]);
       Some (Suc (length st4),
             st4 @ [butlast (st4 ! recResults1)]
                 @ [butlast (st4 ! recResults1) @ (st4 @ [butlast (st4 ! recResults1)]) ! recResults2])
     }"
  by (subst ramerDouglasPeucker_st.simps)
     (simp add: case_prod_beta Let_def newArray_def slice_0 butlast_conv_take)

lemma rdp_st_refines:
  assumes "0 \<le> eps" "points < length st"
  shows "\<exists>r new. ramerDouglasPeucker_st points eps st = Some (r, st @ new)
           \<and> r < length (st @ new)
           \<and> ramerDouglasPeucker (st ! points) eps = Some ((st @ new) ! r)"
  using assms(2)
proof (induction "length (st ! points)" arbitrary: points st rule: less_induct)
  case less
  let ?ps = "st ! points"
  show ?case
  proof (cases "length ?ps < 3")
    case True
    then have "ramerDouglasPeucker_st points eps st = Some (points, st @ [])
        \<and> points < length (st @ [])
        \<and> ramerDouglasPeucker ?ps eps = Some ((st @ []) ! points)"
      using less.prems by (simp add: rdp_st_short rdp_short)
    then show ?thesis by blast
  next
    case long: False
    obtain dmax index where f: "farthest ?ps = (dmax, index)" by (cases "farthest ?ps")
    show ?thesis
    proof (cases "dmax > eps")
      case False
      let ?new = "[[?ps ! 0, ?ps ! (length ?ps - 1)]]"
      have "ramerDouglasPeucker_st points eps st = Some (length st, st @ ?new)
        \<and> length st < length (st @ ?new)
        \<and> ramerDouglasPeucker ?ps eps = Some ((st @ ?new) ! length st)"
        using long f False by (simp add: rdp_st_collapse rdp_collapse)
      then show ?thesis by blast
    next
      case True
      then have "0 < dmax" using assms(1) by simp
      with farthest_props(3) [OF f] have ix: "1 \<le> index" "index < length ?ps - 1" by auto
      let ?l = "take (index + 1) ?ps"
      let ?st1 = "st @ [?l]"
      have lt1: "length (?st1 ! length st) < length ?ps" using ix by simp
      have in1: "length st < length ?st1" by simp
      from less.hyps [OF lt1 in1]
      obtain r1 new1 where r1: "ramerDouglasPeucker_st (length st) eps ?st1 = Some (r1, ?st1 @ new1)"
        and r1b: "r1 < length (?st1 @ new1)"
        and p1: "ramerDouglasPeucker ?l eps = Some ((?st1 @ new1) ! r1)"
        unfolding nth_append_length by blast
      let ?st2 = "?st1 @ new1"
      have same2: "?st2 ! points = ?ps" using less.prems by (simp add: nth_append)
      let ?r = "drop index ?ps"
      let ?st3 = "?st2 @ [?r]"
      have sl: "slice index (length ?ps - 1 + 1) (?st2 ! points) = ?r"
        unfolding same2 by (simp add: slice_to_end)
      have "?st3 ! length ?st2 = ?r" by (rule nth_append_length)
      moreover have "length ?r < length ?ps" using ix by simp
      ultimately have lt3: "length (?st3 ! length ?st2) < length ?ps" by (simp only:)
      have in3: "length ?st2 < length ?st3" by simp
      from less.hyps [OF lt3 in3]
      obtain r2 new2 where r2: "ramerDouglasPeucker_st (length ?st2) eps ?st3 = Some (r2, ?st3 @ new2)"
        and r2b: "r2 < length (?st3 @ new2)"
        and p2: "ramerDouglasPeucker ?r eps = Some ((?st3 @ new2) ! r2)"
        unfolding nth_append_length by blast
      let ?st4 = "?st3 @ new2"
      have "(?st2 @ ([?r] @ new2)) ! r1 = ?st2 ! r1"
        using r1b by (rule nth_append_left)
      then have same4: "?st4 ! r1 = ?st2 ! r1" by (simp only: append_assoc)
      let ?front = "butlast (?st4 ! r1)"
      let ?res = "?front @ (?st4 @ [?front]) ! r2"
      let ?new = "[?l] @ new1 @ [?r] @ new2 @ [?front] @ [?res]"
      have n5: "(?st4 @ [?front]) ! r2 = ?st4 ! r2"
        using r2b by (simp only: nth_append_left)
      have c2: "fst (farthest ?ps) > eps" and sf: "snd (farthest ?ps) = index"
        using True f by simp_all
      have "ramerDouglasPeucker_st points eps st = Some (Suc (length ?st4), ?st4 @ [?front] @ [?res])"
        unfolding rdp_st_split [OF long c2] sf
        unfolding r1 Option.bind_lunit prod.case sl
        unfolding r2 Option.bind_lunit prod.case ..
      moreover have "?st4 @ [?front] @ [?res] = st @ ?new" by simp
      ultimately have st: "ramerDouglasPeucker_st points eps st = Some (Suc (length ?st4), st @ ?new)"
        by (simp only:)
      have "(st @ ?new) ! Suc (length ?st4) = ?res"
        by (simp add: nth_append)
      moreover have "ramerDouglasPeucker ?ps eps = Some ?res"
      proof -
        have "ramerDouglasPeucker ?ps eps = Some (butlast (?st2 ! r1) @ ?st4 ! r2)"
          unfolding rdp_split [OF long c2] sf unfolding p1 p2 Option.bind_lunit ..
        moreover have "?res = butlast (?st2 ! r1) @ ?st4 ! r2"
          by (subst n5, subst same4, rule refl)
        ultimately show ?thesis by (simp only:)
      qed
      ultimately have "ramerDouglasPeucker_st points eps st = Some (Suc (length ?st4), st @ ?new)
        \<and> Suc (length ?st4) < length (st @ ?new)
        \<and> ramerDouglasPeucker ?ps eps = Some ((st @ ?new) ! Suc (length ?st4))"
        using st by simp
      then show ?thesis by blast
    qed
  qed
qed

lemma pop_last: "pop (length st) (st @ [xs]) = st @ [butlast xs]"
  by (simp add: pop_def)

lemma analyzeShape_st_late:
  assumes "originalPoints < length st"
    and "\<not> length (st ! originalPoints) < 10"
    and "\<not> jsgt (linearity (st ! originalPoints)) 0.94"
    and "\<not> jsgt (fillRatio (st ! originalPoints)) 0.80"
  shows "\<exists>new. analyzeShape_st originalPoints st = (analyzeShape (st ! originalPoints), st @ new)"
proof -
  let ?ps = "st ! originalPoints"
  have ne: "?ps \<noteq> []" using assms(2) by auto
  have "0 \<le> epsilon ?ps" using epsilon_ge5 [of ?ps] by simp
  from rdp_st_refines [OF this assms(1)]
  obtain r new1 where st: "ramerDouglasPeucker_st originalPoints (epsilon ?ps) st = Some (r, st @ new1)"
    and rb: "r < length (st @ new1)"
    and pure: "ramerDouglasPeucker ?ps (epsilon ?ps) = Some ((st @ new1) ! r)"
    by blast
  let ?st1 = "st @ new1"
  let ?simplified = "?st1 ! r"
  have sne: "?simplified \<noteq> []" using rdp_result [OF pure] ne by simp
  let ?st2 = "?st1 @ [?simplified]"
  let ?v = "vertices ?ps ?simplified"
  let ?st3 = "if isClosed ?ps ?simplified \<and> length (?st2 ! length ?st1) > 3
              then (if getDistance (?st2 ! length ?st1 ! 0)
                         (?st2 ! length ?st1 ! (length (?st2 ! length ?st1) - 1))
                       < epsilon ?ps * 2
                    then pop (length ?st1) ?st2 else ?st2)
              else ?st2"
  have st3: "?st3 = ?st1 @ [?v]"
    unfolding nth_append_length pop_last by (simp add: vertices_def Let_def)
  have v3: "(?st1 @ [?v]) ! length ?st1 = ?v" by (rule nth_append_length)
  have "(st @ (new1 @ [?v])) ! originalPoints = ?ps"
    using assms(1) by (rule nth_append_left)
  then have o3: "(?st1 @ [?v]) ! originalPoints = ?ps" by (simp only: append_assoc)
  have "analyzeShape_st originalPoints st = (analyzeShape ?ps, ?st1 @ [?v])"
    unfolding analyzeShape_st_def analyzeShape_def Let_def case_prod_beta
    unfolding if_not_P [OF assms(2)] if_not_P [OF assms(3)] if_not_P [OF assms(4)]
    unfolding st pure option.case prod.case if_not_P [OF sne] newArray_def fst_conv snd_conv
    unfolding st3 v3 o3
    by (simp add: avgRadius_def radiusVariance_def normalizedVariance_def center_def Let_def)
  then have "analyzeShape_st originalPoints st = (analyzeShape ?ps, st @ (new1 @ [?v]))"
    by (simp only: append_assoc)
  then show ?thesis by blast
qed

subsection \<open>Purity\<close>

text \<open>
  Claim C9. A call of \<open>analyzeShape\<close> on an array of the store returns the value that the
  function on values gives for the content of that array: the result depends on nothing
  but the points of the input, so any two calls on the same points, in whatever store
  and at whatever reference, and in particular a second call after the first, return the
  same value. The store after the call is the store before it with new arrays appended:
  no array that existed is written to, the input least of all, and the points
  themselves are values that nothing can write to.
\<close>

theorem analyzeShape_pure:
  assumes "originalPoints < length st"
  shows "fst (analyzeShape_st originalPoints st) = analyzeShape (st ! originalPoints)
     \<and> (\<exists>new. snd (analyzeShape_st originalPoints st) = st @ new)
     \<and> snd (analyzeShape_st originalPoints st) ! originalPoints = st ! originalPoints
     \<and> fst (analyzeShape_st originalPoints (snd (analyzeShape_st originalPoints st)))
         = fst (analyzeShape_st originalPoints st)
     \<and> (\<forall>st' other. other < length st' \<and> st' ! other = st ! originalPoints \<longrightarrow>
           fst (analyzeShape_st other st') = fst (analyzeShape_st originalPoints st))"
proof -
  have main: "\<exists>new. analyzeShape_st a s = (analyzeShape (s ! a), s @ new)" if "a < length s" for a s
  proof (cases "length (s ! a) < 10")
    case True
    then have "analyzeShape_st a s = (analyzeShape (s ! a), s @ [])"
      by (simp add: analyzeShape_st_def analyzeShape_def)
    then show ?thesis by blast
  next
    case long: False
    show ?thesis
    proof (cases "jsgt (linearity (s ! a)) 0.94")
      case True
      then have "analyzeShape_st a s = (analyzeShape (s ! a), s @ [])"
        using long by (simp add: analyzeShape_st_def analyzeShape_def Let_def)
      then show ?thesis by blast
    next
      case noline: False
      show ?thesis
      proof (cases "jsgt (fillRatio (s ! a)) 0.80")
        case True
        then have "analyzeShape_st a s = (analyzeShape (s ! a), s @ [])"
          using long noline
          by (simp add: analyzeShape_st_def analyzeShape_def Let_def case_prod_beta)
        then show ?thesis by blast
      next
        case False
        then show ?thesis using analyzeShape_st_late [OF that long noline] by blast
      qed
    qed
  qed
  from main [OF assms] obtain new
    where r: "analyzeShape_st originalPoints st = (analyzeShape (st ! originalPoints), st @ new)"
    by blast
  have same: "(st @ new) ! originalPoints = st ! originalPoints"
    using assms by (rule nth_append_left)
  have "originalPoints < length (st @ new)" using assms by simp
  from main [OF this] obtain new2
    where r2: "analyzeShape_st originalPoints (st @ new)
                = (analyzeShape ((st @ new) ! originalPoints), (st @ new) @ new2)"
    by blast
  have other: "fst (analyzeShape_st other st') = fst (analyzeShape_st originalPoints st)"
    if "other < length st' \<and> st' ! other = st ! originalPoints" for st' other
    using main [of other st'] that by (auto simp: r)
  show ?thesis
    using other by (simp add: r r2 same)
qed

lemma rhombus_box: "boundingBox rhombusStroke = (0, 80, - 30, 30)"
  by (simp add: boundingBox_def rhombusStroke_def bboxStep_def)

lemma rhombus_dims: "width rhombusStroke = 80" "height rhombusStroke = 60"
  "diag rhombusStroke = 100" "epsilon rhombusStroke = 5"
  by (simp_all add: width_def height_def diag_def epsilon_def rhombus_box)

lemma rhombus_fillRatio: "fillRatio rhombusStroke = Fin (1 / 2)"
proof -
  have "shoelace rhombusStroke = - 4800" by (simp add: rhombusStroke_def shoelace_zip)
  then show ?thesis by (simp add: fillRatio_def area_def rhombus_dims jsdiv_def)
qed

lemma rhombus_simplified:
  "ramerDouglasPeucker rhombusStroke (epsilon rhombusStroke)
     = Some [pt 0 0, pt 40 30, pt 80 0, pt 40 (- 30), pt 0 0]"
proof -
  let ?A = "[pt 0 0, pt 8 6, pt 20 15, pt 40 30, pt 60 15, pt 80 0]"
  let ?B = "[pt 80 0, pt 60 (- 15), pt 40 (- 30), pt 20 (- 15), pt 0 0]"
  have sq: "(sqrt x < 80) = (x < 6400)" "(80 < sqrt x) = (6400 < x)" for x
    using real_sqrt_less_iff [of x 6400] real_sqrt_less_iff [of 6400 x] by simp_all
  have f0: "farthest rhombusStroke = (80, 5)"
    by (simp add: farthest_def rhombusStroke_def perpendicularDistance_same getDistance_def
          Let_def sq)
  have fA: "farthest ?A = (30, 3)"
    by (simp add: farthest_def perpendicularDistance_def Let_def)
  have fA1: "farthest [pt 0 0, pt 8 6, pt 20 15, pt 40 30] = (0, 0)"
    by (simp add: farthest_def perpendicularDistance_def Let_def)
  have fA2: "farthest [pt 40 30, pt 60 15, pt 80 0] = (0, 0)"
    by (simp add: farthest_def perpendicularDistance_def Let_def)
  have fB: "farthest ?B = (30, 2)"
    by (simp add: farthest_def perpendicularDistance_def Let_def)
  have fB1: "farthest [pt 80 0, pt 60 (- 15), pt 40 (- 30)] = (0, 0)"
    by (simp add: farthest_def perpendicularDistance_def Let_def)
  have fB2: "farthest [pt 40 (- 30), pt 20 (- 15), pt 0 0] = (0, 0)"
    by (simp add: farthest_def perpendicularDistance_def Let_def)
  have rA1: "ramerDouglasPeucker [pt 0 0, pt 8 6, pt 20 15, pt 40 30] 5 = Some [pt 0 0, pt 40 30]"
    by (simp add: rdp_collapse fA1)
  have rA2: "ramerDouglasPeucker [pt 40 30, pt 60 15, pt 80 0] 5 = Some [pt 40 30, pt 80 0]"
    by (simp add: rdp_collapse fA2)
  have rB1: "ramerDouglasPeucker [pt 80 0, pt 60 (- 15), pt 40 (- 30)] 5
      = Some [pt 80 0, pt 40 (- 30)]"
    by (simp add: rdp_collapse fB1)
  have rB2: "ramerDouglasPeucker [pt 40 (- 30), pt 20 (- 15), pt 0 0] 5
      = Some [pt 40 (- 30), pt 0 0]"
    by (simp add: rdp_collapse fB2)
  have rA: "ramerDouglasPeucker ?A 5 = Some [pt 0 0, pt 40 30, pt 80 0]"
    by (simp add: rdp_split fA rA1 rA2)
  have rB: "ramerDouglasPeucker ?B 5 = Some [pt 80 0, pt 40 (- 30), pt 0 0]"
    by (simp add: rdp_split fB rB1 rB2)
  have t: "take 6 rhombusStroke = ?A" "drop 5 rhombusStroke = ?B"
    by (simp_all add: rhombusStroke_def)
  have "\<not> length rhombusStroke < 3" by (simp add: rhombusStroke_def)
  then show ?thesis
    unfolding rhombus_dims by (simp add: rdp_split f0 t rA rB)
qed

lemma rhombus_vertices:
  "vertices rhombusStroke [pt 0 0, pt 40 30, pt 80 0, pt 40 (- 30), pt 0 0]
     = [pt 0 0, pt 40 30, pt 80 0, pt 40 (- 30)]"
  by (simp add: vertices_def isClosed_def rhombus_dims getDistance_self)

lemma rhombus_result:
  "analyzeShape rhombusStroke =
     Inr \<lparr>kind = Rect, score = Fin 0.9, data = RectData 0 (- 30) 80 60\<rparr>"
proof -
  have len: "10 \<le> length rhombusStroke" by (simp add: rhombusStroke_def)
  have "rhombusStroke ! 0 = rhombusStroke ! (length rhombusStroke - 1)"
    by (simp add: rhombusStroke_def)
  then have noline: "\<not> jsgt (linearity rhombusStroke) 0.94" by (rule closed_not_line)
  have nofill: "\<not> jsgt (fillRatio rhombusStroke) 0.80" unfolding rhombus_fillRatio by simp
  show ?thesis
    using analyzeShape_late [OF len noline nofill rhombus_simplified]
    by (simp add: rhombus_vertices rhombus_box rhombus_dims)
qed

theorem analyzeShape_pure_witness:
  "0 < length [rhombusStroke]
   \<and> fst (analyzeShape_st 0 [rhombusStroke]) =
       Inr \<lparr>kind = Rect, score = Fin 0.9, data = RectData 0 (- 30) 80 60\<rparr>
   \<and> (\<exists>new. snd (analyzeShape_st 0 [rhombusStroke]) = [rhombusStroke] @ new)
   \<and> snd (analyzeShape_st 0 [rhombusStroke]) ! 0 = rhombusStroke
   \<and> fst (analyzeShape_st 0 (snd (analyzeShape_st 0 [rhombusStroke])))
       = fst (analyzeShape_st 0 [rhombusStroke])"
  using analyzeShape_pure [of 0 "[rhombusStroke]"] by (simp add: rhombus_result)

end
